theory Spec2Isabelle
  imports Main "HOL-Library.Sublist" "HOL-Library.Multiset"
begin

section \<open>Python values, strings and errors\<close>

text \<open>
  The program is \<^verbatim>\<open>seller.py\<close>: it reads the offers of a marketplace page by page,
  reads a spreadsheet of watch remnants, and builds the stock and price updates it posts.

  A Python \<^verbatim>\<open>str\<close> is modelled as a \<^typ>\<open>string\<close> holding its UTF-8 bytes. The
  program compares strings, splits them at the ASCII full stop and keeps ASCII digits; all
  three give the same answer on the bytes as on the code points. \<^verbatim>\<open>int\<close> decodes the bytes.

  A spreadsheet cell is a \<open>pyval\<close>: a missing key (\<^verbatim>\<open>dict.get\<close> gives \<^verbatim>\<open>None\<close>), a
  boolean, an integer, a float or a text cell. A finite float is \<open>PyFloat r m e\<close>: the number
  \<open>m * 2 ^ e\<close>, together with the text \<open>r\<close> that \<^verbatim>\<open>str\<close> gives for it. That text (the
  shortest decimal text that reads back as the same float) is not computed here; it is
  ASCII and always has a point or an exponent, which is \<open>float_text\<close>. \<open>PyInf\<close> is an
  infinity (\<open>True\<close> for the negative one) and \<open>PyNan\<close> is not-a-number. Date and time
  cells are outside the model, and so is \<^verbatim>\<open>str\<close> of an integer of more than 4300
  digits, which raises; the integer cells of a spreadsheet are doubles and far smaller.
  Every exception the code can raise is a value of \<open>error\<close>.
\<close>

datatype error =
  ValueError | TypeError | AttributeError | IndexError | OverflowError
  | HTTPError | ReadTimeout | ConnectionError

datatype pyval =
  PyNone | PyBool bool | PyInt int | PyFloat string int int | PyInf bool | PyNan | PyStr string

definition float_text :: "string \<Rightarrow> bool" where
  "float_text r =
     (list_all (\<lambda>c. (of_char c :: nat) < 128) r \<and> (CHR ''.'' \<in> set r \<or> CHR ''e'' \<in> set r))"

definition is_digit :: "char \<Rightarrow> bool" where
  "is_digit c = (48 \<le> (of_char c :: nat) \<and> (of_char c :: nat) \<le> 57)"

definition digit_val :: "char \<Rightarrow> nat" where
  "digit_val c = of_char c - 48"

definition digit_char :: "nat \<Rightarrow> char" where
  "digit_char d = char_of (48 + d)"

text \<open>
  \<^verbatim>\<open>str(v)\<close>: a string is itself, an integer is its decimal text, \<^verbatim>\<open>None\<close> is "None", a
  boolean is "True" or "False", a float is its text.
\<close>

function str_nat :: "nat \<Rightarrow> string" where
  "str_nat n = (if n < 10 then [digit_char n] else str_nat (n div 10) @ [digit_char (n mod 10)])"
  by pat_completeness auto
termination
  by (relation "measure (\<lambda>n. n)") auto

declare str_nat.simps [simp del]

definition str_int :: "int \<Rightarrow> string" where
  "str_int i = (if i < 0 then CHR ''-'' # str_nat (nat (- i)) else str_nat (nat i))"

fun py_str :: "pyval \<Rightarrow> string" where
  "py_str PyNone = ''None''"
| "py_str (PyBool b) = (if b then ''True'' else ''False'')"
| "py_str (PyInt i) = str_int i"
| "py_str (PyFloat r m e) = r"
| "py_str (PyInf negative) = (if negative then ''-inf'' else ''inf'')"
| "py_str PyNan = ''nan''"
| "py_str (PyStr s) = s"

text \<open>
  \<^verbatim>\<open>int(text)\<close>, as CPython 3.11 does it. Text with a character beyond ASCII is first
  rewritten: a character below 127 stays, a space of Unicode becomes an ASCII space, a
  decimal digit of Unicode becomes its ASCII digit, and at any other character the text is
  cut and a question mark put in its place. The tables are those of Unicode 14.0: the
  spaces, and the code point of the digit zero of each run of ten decimal digits.
\<close>

definition unicode_spaces :: "nat list" where
  "unicode_spaces =
     [0x85, 0xA0, 0x1680, 0x2000, 0x2001, 0x2002, 0x2003, 0x2004, 0x2005, 0x2006, 0x2007,
      0x2008, 0x2009, 0x200A, 0x2028, 0x2029, 0x202F, 0x205F, 0x3000]"

definition unicode_zeros :: "nat list" where
  "unicode_zeros =
     [0x660, 0x6F0, 0x7C0, 0x966, 0x9E6, 0xA66, 0xAE6, 0xB66, 0xBE6, 0xC66, 0xCE6, 0xD66,
      0xDE6, 0xE50, 0xED0, 0xF20, 0x1040, 0x1090, 0x17E0, 0x1810, 0x1946, 0x19D0, 0x1A80,
      0x1A90, 0x1B50, 0x1BB0, 0x1C40, 0x1C50, 0xA620, 0xA8D0, 0xA900, 0xA9D0, 0xA9F0,
      0xAA50, 0xABF0, 0xFF10, 0x104A0, 0x10D30, 0x11066, 0x110F0, 0x11136, 0x111D0,
      0x112F0, 0x11450, 0x114D0, 0x11650, 0x116C0, 0x11730, 0x118E0, 0x11950, 0x11C50,
      0x11D50, 0x11DA0, 0x16A60, 0x16AC0, 0x16B50, 0x1D7CE, 0x1D7D8, 0x1D7E2, 0x1D7EC,
      0x1D7F6, 0x1E140, 0x1E2F0, 0x1E950, 0x1FBF0]"

definition ascii_of_codepoint :: "nat \<Rightarrow> char option" where
  "ascii_of_codepoint cp =
     (if cp \<in> set unicode_spaces then Some CHR '' ''
      else (case filter (\<lambda>z. z \<le> cp \<and> cp < z + 10) unicode_zeros of
              [] \<Rightarrow> None
            | z # _ \<Rightarrow> Some (digit_char (cp - z))))"

text \<open>
  The rewriting, on the UTF-8 bytes: a lead byte from 192 opens a character of two bytes,
  from 224 of three, from 240 of four. Bytes that are no UTF-8 text of a Python string end
  it like any other character.
\<close>

definition cont :: "char \<Rightarrow> nat" where
  "cont c = of_char c - 128"

fun decimal_and_space_to_ascii :: "string \<Rightarrow> string" where
  "decimal_and_space_to_ascii [] = []"
| "decimal_and_space_to_ascii (b # bs) =
     (let n = (of_char b :: nat) in
      if n < 127 then b # decimal_and_space_to_ascii bs
      else if 192 \<le> n \<and> n < 224 then
        (case bs of
           c1 # rest \<Rightarrow>
             (case ascii_of_codepoint ((n - 192) * 64 + cont c1) of
                Some a \<Rightarrow> a # decimal_and_space_to_ascii rest
              | None \<Rightarrow> ''?'')
         | _ \<Rightarrow> ''?'')
      else if 224 \<le> n \<and> n < 240 then
        (case bs of
           c1 # c2 # rest \<Rightarrow>
             (case ascii_of_codepoint ((n - 224) * 4096 + cont c1 * 64 + cont c2) of
                Some a \<Rightarrow> a # decimal_and_space_to_ascii rest
              | None \<Rightarrow> ''?'')
         | _ \<Rightarrow> ''?'')
      else if 240 \<le> n \<and> n < 248 then
        (case bs of
           c1 # c2 # c3 # rest \<Rightarrow>
             (case ascii_of_codepoint
                     ((n - 240) * 262144 + cont c1 * 4096 + cont c2 * 64 + cont c3) of
                Some a \<Rightarrow> a # decimal_and_space_to_ascii rest
              | None \<Rightarrow> ''?'')
         | _ \<Rightarrow> ''?'')
      else ''?'')"

text \<open>
  Then the ASCII text is read: white space (space, tab, line feed, vertical tab, form feed,
  carriage return) is stripped from both ends, one sign may lead, and the rest is decimal
  digits, where a single underscore may stand between two digits. More digits than
  \<open>max_str_digits\<close> (4300 unless the process changes it) are refused. Anything else has no
  integer value: \<^verbatim>\<open>int\<close> raises \<open>ValueError\<close>.
\<close>

definition is_space :: "char \<Rightarrow> bool" where
  "is_space c = (let n = (of_char c :: nat) in n = 32 \<or> (9 \<le> n \<and> n \<le> 13))"

definition py_strip :: "string \<Rightarrow> string" where
  "py_strip s = rev (dropWhile is_space (rev (dropWhile is_space s)))"

fun digits_from :: "nat \<Rightarrow> string \<Rightarrow> nat option" where
  "digits_from a [] = Some a"
| "digits_from a (c # cs) =
     (if is_digit c then digits_from (10 * a + digit_val c) cs
      else if c = CHR ''_'' then
        (case cs of
           [] \<Rightarrow> None
         | d # ds \<Rightarrow> if is_digit d then digits_from (10 * a + digit_val d) ds else None)
      else None)"

definition max_str_digits :: nat where
  "max_str_digits = 4300"

definition parse_digits :: "string \<Rightarrow> nat option" where
  "parse_digits s =
     (if max_str_digits < length (filter is_digit s) then None
      else (case s of
              [] \<Rightarrow> None
            | c # cs \<Rightarrow> if is_digit c then digits_from (digit_val c) cs else None))"

definition int_of_string :: "string \<Rightarrow> int option" where
  "int_of_string s =
     (case py_strip (if list_all (\<lambda>c. (of_char c :: nat) < 128) s then s
                     else decimal_and_space_to_ascii s) of
        [] \<Rightarrow> None
      | c # cs \<Rightarrow>
          if c = CHR ''-'' then map_option (\<lambda>n. - int n) (parse_digits cs)
          else if c = CHR ''+'' then map_option int (parse_digits cs)
          else map_option int (parse_digits (c # cs)))"

text \<open>
  \<^verbatim>\<open>int(v)\<close>: the value of text; an integer itself; 1 or 0 for a boolean; a finite float
  cut towards zero; \<open>OverflowError\<close> for an infinity, \<open>ValueError\<close> for not-a-number and
  \<open>TypeError\<close> for \<^verbatim>\<open>None\<close>.
\<close>

definition float_trunc :: "int \<Rightarrow> int \<Rightarrow> int" where
  "float_trunc m e =
     (if 0 \<le> e then m * 2 ^ nat e
      else if 0 \<le> m then m div 2 ^ nat (- e)
      else - ((- m) div 2 ^ nat (- e)))"

fun py_int :: "pyval \<Rightarrow> error + int" where
  "py_int PyNone = Inl TypeError"
| "py_int (PyBool b) = Inr (if b then 1 else 0)"
| "py_int (PyInt i) = Inr i"
| "py_int (PyFloat r m e) = Inr (float_trunc m e)"
| "py_int (PyInf negative) = Inl OverflowError"
| "py_int PyNan = Inl ValueError"
| "py_int (PyStr s) = (case int_of_string s of None \<Rightarrow> Inl ValueError | Some i \<Rightarrow> Inr i)"

section \<open>Price conversion\<close>

text \<open>
  \<^verbatim>\<open>s.split(sep)\<close> for a separator of one character: the pieces between the separators,
  never an empty list.
\<close>

fun py_split :: "char \<Rightarrow> string \<Rightarrow> string list" where
  "py_split sep [] = [[]]"
| "py_split sep (c # cs) =
     (if c = sep then [] # py_split sep cs
      else (case py_split sep cs of
              [] \<Rightarrow> [[c]]
            | p # ps \<Rightarrow> (c # p) # ps))"

text \<open>
  \<^verbatim>\<open>re.sub("[^0-9]", "", s)\<close>: every character that the class \<^verbatim>\<open>[^0-9]\<close> matches is
  replaced by the empty string, one character at a time.
\<close>

fun re_sub_non_digits :: "string \<Rightarrow> string" where
  "re_sub_non_digits [] = []"
| "re_sub_non_digits (c # cs) =
     (if is_digit c then c # re_sub_non_digits cs else [] @ re_sub_non_digits cs)"

text \<open>
  \<^verbatim>\<open>return re.sub("[^0-9]", "", price.split(".")[0])\<close>. The index \<^verbatim>\<open>[0]\<close> raises
  \<open>IndexError\<close> on an empty list.
\<close>

definition price_conversion :: "string \<Rightarrow> error + string" where
  "price_conversion price =
     (case py_split CHR ''.'' price of
        [] \<Rightarrow> Inl IndexError
      | p # _ \<Rightarrow> Inr (re_sub_non_digits p))"

text \<open>The text "rub" in Cyrillic letters (U+0440 U+0443 U+0431), as UTF-8.\<close>

definition rub :: string where
  "rub = [CHR 0xD1, CHR 0x80, CHR 0xD1, CHR 0x83, CHR 0xD0, CHR 0xB1]"

section \<open>Records of the data model\<close>

text \<open>
  A row of the spreadsheet is a dictionary; the program reads three of its keys with
  \<^verbatim>\<open>watch.get\<close>: the code, the quantity and the price (Cyrillic in the source, written
  here \<open>Kod\<close>, \<open>Kolichestvo\<close>, \<open>Tsena\<close>). A key that is absent reads as \<open>PyNone\<close>.
\<close>

record watch =
  Kod :: pyval
  Kolichestvo :: pyval
  Tsena :: pyval

text \<open>\<^verbatim>\<open>{"offer_id": ..., "stock": ...}\<close>\<close>

record stock_update =
  s_offer_id :: string
  stock :: int

text \<open>The dictionary \<^verbatim>\<open>create_prices\<close> builds, with its five keys.\<close>

record price_update =
  auto_action_enabled :: string
  currency_code :: string
  p_offer_id :: string
  old_price :: string
  price :: string

text \<open>
  An item of the product list, and one page of \<^verbatim>\<open>/v2/product/list\<close>. The key
  \<^verbatim>\<open>total\<close> is the field \<open>total_count\<close>.
\<close>

record product =
  product_id :: int
  offer_id :: string

record page =
  items :: "product list"
  total_count :: int
  last_id :: string

text \<open>
  The outside world of one run: what the marketplace answers to each request and what the
  download of the remnants gives. \<^verbatim>\<open>raise_for_status\<close> and the transport's exceptions are
  the \<open>Inl\<close> answers. The credentials are fixed for a run and are part of these functions.
\<close>

record marketplace =
  get_product_list :: "string \<Rightarrow> error + page"
  update_stocks :: "stock_update list \<Rightarrow> error + unit"
  update_price :: "price_update list \<Rightarrow> error + unit"
  download_stock :: "error + watch list"

section \<open>Reading the offer identifiers\<close>

text \<open>
  The loop of \<^verbatim>\<open>get_offer_ids\<close>:
  \<^verbatim>\<open>
    while True:
        some_prod = get_product_list(last_id, client_id, seller_token)
        product_list.extend(some_prod.get("items"))
        total = some_prod.get("total")
        last_id = some_prod.get("last_id")
        if total == len(product_list):
            break
  \<close>
  It has no bound of its own, so the model is a partial function: \<open>None\<close> is a loop that
  never ends.
\<close>

partial_function (option) fetch_products ::
  "(string \<Rightarrow> error + page) \<Rightarrow> string \<Rightarrow> product list \<Rightarrow> (error + product list) option" where
  "fetch_products api cursor product_list =
     (case api cursor of
        Inl e \<Rightarrow> Some (Inl e)
      | Inr some_prod \<Rightarrow>
          if total_count some_prod = int (length (product_list @ items some_prod))
          then Some (Inr (product_list @ items some_prod))
          else fetch_products api (last_id some_prod) (product_list @ items some_prod))"

definition get_offer_ids :: "marketplace \<Rightarrow> (error + string list) option" where
  "get_offer_ids m =
     (case fetch_products (get_product_list m) [] [] of
        None \<Rightarrow> None
      | Some (Inl e) \<Rightarrow> Some (Inl e)
      | Some (Inr product_list) \<Rightarrow> Some (Inr (map offer_id product_list)))"

section \<open>Stocks and prices\<close>

text \<open>
  Lines 193 to 199, the stock of one matched row:
  \<^verbatim>\<open>
    count = str(watch.get(QUANTITY))
    if count == ">10":   stock = 100
    elif count == "1":   stock = 0
    else:                stock = int(watch.get(QUANTITY))
  \<close>
  The last branch converts the cell itself, not its text.
\<close>

definition watch_stock :: "watch \<Rightarrow> error + int" where
  "watch_stock w =
     (let count = py_str (Kolichestvo w) in
      if count = ''>10'' then Inr 100
      else if count = ''1'' then Inr 0
      else py_int (Kolichestvo w))"

text \<open>
  The stock rule in the words of the specification (sections 4.3 and 8), on the quantity
  text: ">10" is 100, "1" is 0, anything else is its integer parse, which may fail. It is
  compared with \<open>watch_stock\<close> below.
\<close>

definition normalizeStock :: "string \<Rightarrow> int option" where
  "normalizeStock quantity_text =
     (if quantity_text = ''>10'' then Some 100
      else if quantity_text = ''1'' then Some 0
      else int_of_string quantity_text)"

text \<open>
  The first loop of \<^verbatim>\<open>create_stocks\<close>. It removes each matched identifier from the
  caller's list \<^verbatim>\<open>offer_ids\<close> (\<^verbatim>\<open>list.remove\<close> drops the first occurrence), so the list
  is threaded through and returned, also when a row raises. The source appends each record
  to \<^verbatim>\<open>stocks\<close>; here the record of a row heads the records of the rows after it, which is
  the same list.
\<close>

fun match_remnants ::
  "watch list \<Rightarrow> string list \<Rightarrow> (error + stock_update list) \<times> string list" where
  "match_remnants [] offer_ids = (Inr [], offer_ids)"
| "match_remnants (w # ws) offer_ids =
     (if py_str (Kod w) \<in> set offer_ids then
        (case watch_stock w of
           Inl e \<Rightarrow> (Inl e, offer_ids)
         | Inr n \<Rightarrow>
             (case match_remnants ws (remove1 (py_str (Kod w)) offer_ids) of
                (Inl e, rest) \<Rightarrow> (Inl e, rest)
              | (Inr stocks, rest) \<Rightarrow>
                  (Inr (\<lparr>s_offer_id = py_str (Kod w), stock = n\<rparr> # stocks), rest)))
      else match_remnants ws offer_ids)"

text \<open>
  \<^verbatim>\<open>create_stocks\<close>: the matched rows, then a zero for every identifier still in the
  list. The result is the returned list (or the exception) and the caller's \<^verbatim>\<open>offer_ids\<close>
  after the call.
\<close>

definition create_stocks ::
  "watch list \<Rightarrow> string list \<Rightarrow> (error + stock_update list) \<times> string list" where
  "create_stocks watch_remnants offer_ids =
     (case match_remnants watch_remnants offer_ids of
        (Inl e, rest) \<Rightarrow> (Inl e, rest)
      | (Inr stocks, rest) \<Rightarrow>
          (Inr (stocks @ map (\<lambda>i. \<lparr>s_offer_id = i, stock = 0\<rparr>) rest), rest))"

text \<open>
  \<^verbatim>\<open>create_stocks\<close> once more, statement by statement on the two list objects of the
  caller, to say what a call leaves in them. The \<^verbatim>\<open>for\<close> loop reads \<^verbatim>\<open>watch_remnants\<close> by
  index, as the iterator of a Python list does, and a row only with \<^verbatim>\<open>watch.get\<close>; the
  writes are \<^verbatim>\<open>stocks.append\<close>, on the local list, and \<^verbatim>\<open>offer_ids.remove\<close>.
\<close>

record caller_lists =
  the_watch_remnants :: "watch list"
  the_offer_ids :: "string list"

function stocks_loop ::
  "nat \<Rightarrow> stock_update list \<Rightarrow> caller_lists \<Rightarrow> (error + stock_update list) \<times> caller_lists" where
  "stocks_loop i stocks s =
     (if i < length (the_watch_remnants s) then
        (let watch = the_watch_remnants s ! i in
         if py_str (Kod watch) \<in> set (the_offer_ids s) then
           (case watch_stock watch of
              Inl e \<Rightarrow> (Inl e, s)
            | Inr n \<Rightarrow>
                stocks_loop (i + 1)
                  (stocks @ [\<lparr>s_offer_id = py_str (Kod watch), stock = n\<rparr>])
                  (s\<lparr>the_offer_ids := remove1 (py_str (Kod watch)) (the_offer_ids s)\<rparr>))
         else stocks_loop (i + 1) stocks s)
      else (Inr stocks, s))"
  by pat_completeness auto
termination
  by (relation "measure (\<lambda>(i, stocks, s). length (the_watch_remnants s) - i)") auto

declare stocks_loop.simps [simp del]

definition create_stocks_call ::
  "caller_lists \<Rightarrow> (error + stock_update list) \<times> caller_lists" where
  "create_stocks_call s =
     (case stocks_loop 0 [] s of
        (Inl e, s') \<Rightarrow> (Inl e, s')
      | (Inr stocks, s') \<Rightarrow>
          (Inr (stocks @ map (\<lambda>i. \<lparr>s_offer_id = i, stock = 0\<rparr>) (the_offer_ids s')), s'))"

text \<open>
  \<^verbatim>\<open>price_conversion(watch.get(PRICE))\<close>: a cell that is not text has no \<^verbatim>\<open>split\<close>.
\<close>

definition watch_price :: "watch \<Rightarrow> error + string" where
  "watch_price w =
     (case Tsena w of
        PyStr s \<Rightarrow> price_conversion s
      | _ \<Rightarrow> Inl AttributeError)"

fun create_prices :: "watch list \<Rightarrow> string list \<Rightarrow> error + price_update list" where
  "create_prices [] offer_ids = Inr []"
| "create_prices (w # ws) offer_ids =
     (if py_str (Kod w) \<in> set offer_ids then
        (case watch_price w of
           Inl e \<Rightarrow> Inl e
         | Inr p \<Rightarrow>
             (case create_prices ws offer_ids of
                Inl e \<Rightarrow> Inl e
              | Inr prices \<Rightarrow>
                  Inr (\<lparr>auto_action_enabled = ''UNKNOWN'', currency_code = ''RUB'',
                        p_offer_id = py_str (Kod w), old_price = ''0'', price = p\<rparr> # prices)))
      else create_prices ws offer_ids)"

section \<open>Chunks\<close>

text \<open>
  \<^verbatim>\<open>range(start, stop, step)\<close>: a step of zero raises \<open>ValueError\<close>, a positive step
  counts up while below \<open>stop\<close>, a negative one counts down while above it.
\<close>

function range_up :: "int \<Rightarrow> int \<Rightarrow> int \<Rightarrow> int list" where
  "range_up i stop step =
     (if 0 < step \<and> i < stop then i # range_up (i + step) stop step else [])"
  by pat_completeness auto
termination
  by (relation "measure (\<lambda>(i, stop, step). nat (stop - i))") auto

function range_down :: "int \<Rightarrow> int \<Rightarrow> int \<Rightarrow> int list" where
  "range_down i stop step =
     (if step < 0 \<and> stop < i then i # range_down (i + step) stop step else [])"
  by pat_completeness auto
termination
  by (relation "measure (\<lambda>(i, stop, step). nat (i - stop))") auto

definition py_range :: "int \<Rightarrow> int \<Rightarrow> int \<Rightarrow> error + int list" where
  "py_range start stop step =
     (if step = 0 then Inl ValueError
      else if 0 < step then Inr (range_up start stop step)
      else Inr (range_down start stop step))"

text \<open>\<^verbatim>\<open>lst[i : j]\<close>: a negative index counts from the end, and both are clamped.\<close>

definition slice_index :: "nat \<Rightarrow> int \<Rightarrow> nat" where
  "slice_index len i = (if i < 0 then nat (max 0 (int len + i)) else min len (nat i))"

definition py_slice :: "'a list \<Rightarrow> int \<Rightarrow> int \<Rightarrow> 'a list" where
  "py_slice lst i j =
     (let a = slice_index (length lst) i; b = slice_index (length lst) j
      in take (b - a) (drop a lst))"

text \<open>
  \<^verbatim>\<open>
    for i in range(0, len(lst), n):
        yield lst[i : i + n]
  \<close>
  \<^verbatim>\<open>divide\<close> is a generator and every caller reads it to its end with \<^verbatim>\<open>list(...)\<close>; the
  model is that list, or the exception raised while reading. It is named \<open>divide_list\<close>
  here, since \<open>divide\<close> is the division of the library.
\<close>

definition divide_list :: "'a list \<Rightarrow> int \<Rightarrow> error + 'a list list" where
  "divide_list lst n =
     (case py_range 0 (int (length lst)) n of
        Inl e \<Rightarrow> Inl e
      | Inr idx \<Rightarrow> Inr (map (\<lambda>i. py_slice lst i (i + n)) idx))"

section \<open>Uploading\<close>

text \<open>\<^verbatim>\<open>for chunk in chunks: post(chunk)\<close>: the first failing request ends the loop.\<close>

fun post_all :: "('a list \<Rightarrow> error + unit) \<Rightarrow> 'a list list \<Rightarrow> error + unit" where
  "post_all post [] = Inr ()"
| "post_all post (c # cs) = (case post c of Inl e \<Rightarrow> Inl e | Inr _ \<Rightarrow> post_all post cs)"

text \<open>
  \<^verbatim>\<open>upload_stocks\<close> returns the pair \<^verbatim>\<open>(not_empty, stocks)\<close>. It is declared
  \<^verbatim>\<open>async\<close> but awaits nothing, so it runs as ordinary sequential code.
\<close>

definition upload_stocks ::
  "marketplace \<Rightarrow> watch list \<Rightarrow> (error + stock_update list \<times> stock_update list) option" where
  "upload_stocks m watch_remnants =
     (case get_offer_ids m of
        None \<Rightarrow> None
      | Some (Inl e) \<Rightarrow> Some (Inl e)
      | Some (Inr offer_ids) \<Rightarrow>
          (case create_stocks watch_remnants offer_ids of
             (Inl e, _) \<Rightarrow> Some (Inl e)
           | (Inr stocks, _) \<Rightarrow>
               (case divide_list stocks 100 of
                  Inl e \<Rightarrow> Some (Inl e)
                | Inr chunks \<Rightarrow>
                    (case post_all (update_stocks m) chunks of
                       Inl e \<Rightarrow> Some (Inl e)
                     | Inr _ \<Rightarrow> Some (Inr (filter (\<lambda>s. stock s \<noteq> 0) stocks, stocks))))))"

text \<open>
  \<^verbatim>\<open>upload_prices\<close> fetches the offer identifiers itself and builds the prices against
  them.
\<close>

definition upload_prices ::
  "marketplace \<Rightarrow> watch list \<Rightarrow> (error + price_update list) option" where
  "upload_prices m watch_remnants =
     (case get_offer_ids m of
        None \<Rightarrow> None
      | Some (Inl e) \<Rightarrow> Some (Inl e)
      | Some (Inr offer_ids) \<Rightarrow>
          (case create_prices watch_remnants offer_ids of
             Inl e \<Rightarrow> Some (Inl e)
           | Inr prices \<Rightarrow>
               (case divide_list prices 1000 of
                  Inl e \<Rightarrow> Some (Inl e)
                | Inr chunks \<Rightarrow>
                    (case post_all (update_price m) chunks of
                       Inl e \<Rightarrow> Some (Inl e)
                     | Inr _ \<Rightarrow> Some (Inr prices)))))"

text \<open>
  The \<^verbatim>\<open>try\<close> block of \<^verbatim>\<open>main\<close>. \<open>Inl e\<close> is the exception that reaches the handlers,
  which print it and return; \<open>Inr\<close> holds the two lists the run built and posted. The list
  \<^verbatim>\<open>offer_ids\<close> that \<^verbatim>\<open>create_prices\<close> receives is the one \<^verbatim>\<open>create_stocks\<close> has
  already worked on.
\<close>

definition main :: "marketplace \<Rightarrow> (error + stock_update list \<times> price_update list) option" where
  "main m =
     (case get_offer_ids m of
        None \<Rightarrow> None
      | Some (Inl e) \<Rightarrow> Some (Inl e)
      | Some (Inr offer_ids) \<Rightarrow>
          (case download_stock m of
             Inl e \<Rightarrow> Some (Inl e)
           | Inr watch_remnants \<Rightarrow>
               (case create_stocks watch_remnants offer_ids of
                  (Inl e, _) \<Rightarrow> Some (Inl e)
                | (Inr stocks, offer_ids') \<Rightarrow>
                    (case divide_list stocks 100 of
                       Inl e \<Rightarrow> Some (Inl e)
                     | Inr stock_chunks \<Rightarrow>
                         (case post_all (update_stocks m) stock_chunks of
                            Inl e \<Rightarrow> Some (Inl e)
                          | Inr _ \<Rightarrow>
                              (case create_prices watch_remnants offer_ids' of
                                 Inl e \<Rightarrow> Some (Inl e)
                               | Inr prices \<Rightarrow>
                                   (case divide_list prices 900 of
                                      Inl e \<Rightarrow> Some (Inl e)
                                    | Inr price_chunks \<Rightarrow>
                                        (case post_all (update_price m) price_chunks of
                                           Inl e \<Rightarrow> Some (Inl e)
                                         | Inr _ \<Rightarrow> Some (Inr (stocks, prices))))))))))"

section \<open>Pages and the scenario of the specification\<close>

text \<open>
  What the claims about the pagination speak of. \<open>serves api cursor ps\<close>: asked with
  \<open>cursor\<close>, the marketplace answers with the first page of \<open>ps\<close>, asked with that page's
  \<^verbatim>\<open>last_id\<close> with the second, and so on. \<open>count_reached\<close>: with the pages \<open>ps\<close> added, the
  number of accumulated items equals the total the last page reports. \<open>first_reached\<close>: it
  does so after the last page of \<open>ps\<close> and after no earlier one.
\<close>

fun serves :: "(string \<Rightarrow> error + page) \<Rightarrow> string \<Rightarrow> page list \<Rightarrow> bool" where
  "serves api cursor [] = True"
| "serves api cursor (p # ps) = (api cursor = Inr p \<and> serves api (last_id p) ps)"

definition count_reached :: "product list \<Rightarrow> page list \<Rightarrow> bool" where
  "count_reached product_list ps =
     (ps \<noteq> [] \<and> total_count (last ps) = int (length (product_list @ concat (map items ps))))"

definition first_reached :: "product list \<Rightarrow> page list \<Rightarrow> bool" where
  "first_reached product_list ps =
     (count_reached product_list ps
      \<and> list_all (\<lambda>k. \<not> count_reached product_list (take k ps)) [1 ..< length ps])"

text \<open>
  The end-to-end scenario of the specification (section 8): the offers X1, X2, X3 come in
  two pages of two and one; the inventory has X1 with quantity ">10" and price "100.50 rub"
  and X2 with quantity "1" and price "200 rub"; every upload is accepted.
\<close>

definition scenario_page1 :: page where
  "scenario_page1 =
     \<lparr>items = [\<lparr>product_id = 1, offer_id = ''X1''\<rparr>, \<lparr>product_id = 2, offer_id = ''X2''\<rparr>],
      total_count = 3, last_id = ''p2''\<rparr>"

definition scenario_page2 :: page where
  "scenario_page2 =
     \<lparr>items = [\<lparr>product_id = 3, offer_id = ''X3''\<rparr>], total_count = 3, last_id = ''''\<rparr>"

definition scenario_remnants :: "watch list" where
  "scenario_remnants =
     [\<lparr>Kod = PyStr ''X1'', Kolichestvo = PyStr ''>10'', Tsena = PyStr (''100.50 '' @ rub)\<rparr>,
      \<lparr>Kod = PyStr ''X2'', Kolichestvo = PyStr ''1'', Tsena = PyStr (''200 '' @ rub)\<rparr>]"

definition scenario_market :: marketplace where
  "scenario_market =
     \<lparr>get_product_list = (\<lambda>cursor. if cursor = '''' then Inr scenario_page1 else Inr scenario_page2),
      update_stocks = (\<lambda>stocks. Inr ()),
      update_price = (\<lambda>prices. Inr ()),
      download_stock = Inr scenario_remnants\<rparr>"

section \<open>Theorems\<close>

lemma py_split_first:
  "\<exists>ps. py_split sep s = takeWhile (\<lambda>c. c \<noteq> sep) s # ps"
  by (induction s) auto

lemma re_sub_non_digits_filter: "re_sub_non_digits s = filter is_digit s"
  by (induction s) auto

lemma price_conversion_eq:
  "price_conversion s = Inr (filter is_digit (takeWhile (\<lambda>c. c \<noteq> CHR ''.'') s))"
  using py_split_first [of "CHR ''.''" s]
  by (auto simp: price_conversion_def re_sub_non_digits_filter)

subsection \<open>Price conversion\<close>

text \<open>
  Claim C3. For every string \<open>s\<close>, \<open>price_conversion s\<close> returns (it never raises) the part
  of \<open>s\<close> before the first full stop with every character that is not an ASCII digit
  removed. In particular "5990.00 rub" gives "5990", "199.99" gives "199", and "rub" gives
  the empty string (the word is in Cyrillic letters).
\<close>

theorem price_conversion_digits_before_dot:
  "price_conversion s = Inr (filter is_digit (takeWhile (\<lambda>c. c \<noteq> CHR ''.'') s))
   \<and> price_conversion (''5990.00 '' @ rub) = Inr ''5990''
   \<and> price_conversion ''199.99'' = Inr ''199''
   \<and> price_conversion rub = Inr ''''"
  by (simp add: price_conversion_eq rub_def is_digit_def)

subsection \<open>Chunks\<close>

declare range_up.simps [simp del] range_down.simps [simp del]

lemma range_up_step:
  "0 < n \<Longrightarrow> i < stop \<Longrightarrow> range_up i stop n = i # range_up (i + n) stop n"
  by (subst range_up.simps) simp

lemma range_up_done: "stop \<le> i \<Longrightarrow> range_up i stop n = []"
  by (subst range_up.simps) simp

lemma range_down_done: "i \<le> stop \<Longrightarrow> range_down i stop n = []"
  by (subst range_down.simps) simp

lemma py_slice_take_drop:
  "0 \<le> i \<Longrightarrow> 0 < n \<Longrightarrow> py_slice lst i (i + n) = take (nat n) (drop (nat i) lst)"
  by (auto simp: py_slice_def slice_index_def Let_def min_def nat_add_distrib)

lemma take_drop_glue: "take k (drop a xs) @ drop (a + k) xs = drop a xs"
  by (metis append_take_drop_id drop_drop add.commute)

lemma concat_pieces:
  "0 < n \<Longrightarrow> 0 \<le> i \<Longrightarrow>
   concat (map (\<lambda>k. py_slice lst k (k + n)) (range_up i (int (length lst)) n)) = drop (nat i) lst"
proof (induction i "int (length lst)" n rule: range_up.induct)
  case (1 i step)
  show ?case
  proof (cases "i < int (length lst)")
    case True
    with 1 show ?thesis
      by (simp add: range_up_step py_slice_take_drop nat_add_distrib take_drop_glue)
  next
    case False
    with 1 show ?thesis by (simp add: range_up_done)
  qed
qed

lemma pieces_length:
  "0 < n \<Longrightarrow> 0 \<le> i \<Longrightarrow>
   c \<in> set (map (\<lambda>k. py_slice lst k (k + n)) (range_up i (int (length lst)) n)) \<Longrightarrow>
   0 < length c \<and> int (length c) \<le> n"
proof (induction i "int (length lst)" n rule: range_up.induct)
  case (1 i step)
  show ?case
  proof (cases "i < int (length lst)")
    case True
    have step: "range_up i (int (length lst)) step = i # range_up (i + step) (int (length lst)) step"
      using True 1(2) by (rule range_up_step [rotated])
    have hd: "0 < length (py_slice lst i (i + step)) \<and> int (length (py_slice lst i (i + step))) \<le> step"
      using True 1(2,3) by (simp add: py_slice_take_drop) arith
    from 1(4) have "c = py_slice lst i (i + step) \<or>
        c \<in> set (map (\<lambda>k. py_slice lst k (k + step)) (range_up (i + step) (int (length lst)) step))"
      by (simp add: step)
    then show ?thesis
    proof
      assume "c = py_slice lst i (i + step)"
      with hd show ?thesis by simp
    next
      assume "c \<in> set (map (\<lambda>k. py_slice lst k (k + step)) (range_up (i + step) (int (length lst)) step))"
      with 1(1) [OF _ 1(2)] True 1(2,3) show ?thesis by simp
    qed
  next
    case False
    with 1 show ?thesis by (simp add: range_up_done)
  qed
qed

lemma pieces_butlast_length:
  "0 < n \<Longrightarrow> 0 \<le> i \<Longrightarrow>
   c \<in> set (butlast (map (\<lambda>k. py_slice lst k (k + n)) (range_up i (int (length lst)) n))) \<Longrightarrow>
   int (length c) = n"
proof (induction i "int (length lst)" n rule: range_up.induct)
  case (1 i step)
  let ?rest = "map (\<lambda>k. py_slice lst k (k + step)) (range_up (i + step) (int (length lst)) step)"
  show ?case
  proof (cases "i < int (length lst)")
    case True
    have step: "range_up i (int (length lst)) step = i # range_up (i + step) (int (length lst)) step"
      using True 1(2) by (rule range_up_step [rotated])
    show ?thesis
    proof (cases "i + step < int (length lst)")
      case False
      then have "?rest = []" by (simp add: range_up_done)
      with 1(4) show ?thesis by (simp add: step)
    next
      case more: True
      then have ne: "?rest \<noteq> []"
        using 1(2) by (simp add: range_up_step)
      have hd: "int (length (py_slice lst i (i + step))) = step"
        using more 1(2,3) by (simp add: py_slice_take_drop)
      from 1(4) ne have "c = py_slice lst i (i + step) \<or> c \<in> set (butlast ?rest)"
        by (simp add: step)
      then show ?thesis
      proof
        assume "c = py_slice lst i (i + step)"
        with hd show ?thesis by simp
      next
        assume "c \<in> set (butlast ?rest)"
        with 1(1) [OF _ 1(2)] True 1(2,3) show ?thesis by simp
      qed
    qed
  next
    case False
    with 1 show ?thesis by (simp add: range_up_done)
  qed
qed

lemma pieces_singletons:
  "0 \<le> i \<Longrightarrow>
   map (\<lambda>k. py_slice lst k (k + 1)) (range_up i (int (length lst)) 1)
   = map (\<lambda>x. [x]) (drop (nat i) lst)"
proof (induction i "int (length lst)" "1::int" rule: range_up.induct)
  case (1 i)
  show ?case
  proof (cases "i < int (length lst)")
    case True
    have step: "range_up i (int (length lst)) 1 = i # range_up (i + 1) (int (length lst)) 1"
      using True by (simp add: range_up_step)
    have lt: "nat i < length lst" using True 1(2) by simp
    have d: "drop (nat i) lst = lst ! nat i # drop (nat (i + 1)) lst"
      using lt 1(2) by (simp add: Cons_nth_drop_Suc nat_add_distrib)
    have s: "py_slice lst i (i + 1) = [lst ! nat i]"
      using lt 1(2) by (simp add: py_slice_take_drop take_Suc_conv_app_nth d)
    from 1(1) True 1(2) have "map (\<lambda>k. py_slice lst k (k + 1)) (range_up (i + 1) (int (length lst)) 1)
       = map (\<lambda>x. [x]) (drop (nat (i + 1)) lst)" by simp
    then show ?thesis by (simp add: step s d)
  next
    case False
    with 1 show ?thesis by (simp add: range_up_done)
  qed
qed

lemma divide_pos:
  "0 < n \<Longrightarrow> divide_list lst n = Inr (map (\<lambda>k. py_slice lst k (k + n)) (range_up 0 (int (length lst)) n))"
  by (simp add: divide_list_def py_range_def)


lemma divide_neg: "n < 0 \<Longrightarrow> divide_list lst n = Inr []"
  by (simp add: divide_list_def py_range_def range_down_done)

lemma divide_zero: "divide_list lst 0 = Inl ValueError"
  by (simp add: divide_list_def py_range_def)

lemma range_250: "range_up 0 250 100 = [0, 100, 200]"
  by (simp add: range_up_step range_up_done)

lemma divide_250:
  "divide_list [1 ..< 251 :: nat] 100 = Inr [[1 ..< 101], [101 ..< 201], [201 ..< 251]]"
  by (simp add: divide_list_def py_range_def range_250 py_slice_def slice_index_def take_upt drop_upt
      del: upt_rec_numeral)

text \<open>
  Claim C6. For every list and every size \<open>n\<close> of at least 1, reading \<open>divide_list lst n\<close> to its
  end gives, without an error, a list of pieces whose concatenation is \<open>lst\<close>; no piece is
  empty or longer than \<open>n\<close>, and every piece but the last has exactly \<open>n\<close> elements. The
  empty list gives no piece, size 1 gives one singleton for each element, and the numbers
  1 to 250 in pieces of 100 are 1 to 100, 101 to 200 and 201 to 250.
\<close>

theorem divide_pieces:
  assumes "1 \<le> n"
  shows "(\<exists>cs. divide_list lst n = Inr cs \<and> concat cs = lst
            \<and> (\<forall>c\<in>set cs. 0 < length c \<and> int (length c) \<le> n)
            \<and> (\<forall>c\<in>set (butlast cs). int (length c) = n))
         \<and> divide_list ([] :: 'a list) n = Inr []
         \<and> divide_list lst 1 = Inr (map (\<lambda>x. [x]) lst)
         \<and> divide_list [1 ..< 251 :: nat] 100 = Inr [[1 ..< 101], [101 ..< 201], [201 ..< 251]]"
proof -
  let ?cs = "map (\<lambda>k. py_slice lst k (k + n)) (range_up 0 (int (length lst)) n)"
  from assms have pos: "0 < n" by simp
  have "divide_list lst n = Inr ?cs"
    using pos by (rule divide_pos)
  moreover have "concat ?cs = lst"
    using concat_pieces [OF pos, of 0 lst] by simp
  moreover have "\<forall>c\<in>set ?cs. 0 < length c \<and> int (length c) \<le> n"
    using pieces_length [OF pos, of 0 _ lst] by blast
  moreover have "\<forall>c\<in>set (butlast ?cs). int (length c) = n"
    using pieces_butlast_length [OF pos, of 0 _ lst] by blast
  ultimately have general: "\<exists>cs. divide_list lst n = Inr cs \<and> concat cs = lst
      \<and> (\<forall>c\<in>set cs. 0 < length c \<and> int (length c) \<le> n)
      \<and> (\<forall>c\<in>set (butlast cs). int (length c) = n)"
    by blast
  have empty: "divide_list ([] :: 'a list) n = Inr []"
    using pos by (simp add: divide_pos range_up_done)
  have single: "divide_list lst 1 = Inr (map (\<lambda>x. [x]) lst)"
    using pieces_singletons [of 0 lst] by (simp add: divide_pos)
  from general empty single divide_250 show ?thesis by blast
qed

theorem divide_pieces_witness:
  "(1 :: int) \<le> 2
   \<and> (\<exists>cs. divide_list [10, 20, 30 :: nat] 2 = Inr cs \<and> concat cs = [10, 20, 30]
          \<and> (\<forall>c\<in>set cs. 0 < length c \<and> int (length c) \<le> 2)
          \<and> (\<forall>c\<in>set (butlast cs). int (length c) = 2))
   \<and> divide_list [10, 20, 30 :: nat] 2 = Inr [[10, 20], [30]]"
proof -
  have h: "(1 :: int) \<le> 2" by simp
  have "range_up 0 3 2 = [0, 2]"
    by (simp add: range_up_step range_up_done)
  then have "divide_list [10, 20, 30 :: nat] 2 = Inr [[10, 20], [30]]"
    by (simp add: divide_list_def py_range_def py_slice_def slice_index_def)
  with h divide_pieces [OF h, of "[10, 20, 30 :: nat]"] show ?thesis by blast
qed

text \<open>
  Claim C7 says that a size of zero or less makes \<open>divide_list\<close> fail on a non-empty list. A
  negative size does not: the range is empty and so is the result.
\<close>

theorem divide_negative_size_counterexample:
  "[1, 2, 3 :: nat] \<noteq> [] \<and> (- 1 :: int) \<le> 0 \<and> divide_list [1, 2, 3 :: nat] (- 1) = Inr []"
  by (simp add: divide_neg)

text \<open>
  Claim C7, amended. For every list, a size of zero makes \<open>divide_list\<close> fail with
  \<open>ValueError\<close> as soon as it is read (\<^verbatim>\<open>range\<close> refuses a step of zero), and a negative
  size gives the empty sequence and no error.
\<close>

theorem divide_size_not_positive:
  "divide_list lst 0 = Inl ValueError \<and> (n < 0 \<longrightarrow> divide_list lst n = Inr [])"
  by (simp add: divide_zero divide_neg)

theorem divide_size_not_positive_witness:
  "(- 5 :: int) < 0 \<and> divide_list [7, 8 :: nat] 0 = Inl ValueError \<and> divide_list [7, 8 :: nat] (- 5) = Inr []"
  using divide_size_not_positive [of "[7, 8 :: nat]" "- 5"] by simp

subsection \<open>Decimal text of integers\<close>

lemmas int_eval =
  int_of_string_def py_strip_def is_space_def parse_digits_def max_str_digits_def
  is_digit_def digit_val_def

lemma digit_char_props:
  "d < 10 \<Longrightarrow> is_digit (digit_char d) \<and> digit_val (digit_char d) = d"
  by (simp add: is_digit_def digit_val_def digit_char_def)

lemma is_digit_not_space: "is_digit c \<Longrightarrow> \<not> is_space c"
  by (auto simp: is_digit_def is_space_def Let_def)

lemma is_digit_not_sign:
  "is_digit c \<Longrightarrow> c \<noteq> CHR ''-'' \<and> c \<noteq> CHR ''+'' \<and> c \<noteq> CHR ''>'' \<and> c \<noteq> CHR ''_''"
  by (auto simp: is_digit_def)

lemma is_digit_ascii: "is_digit c \<Longrightarrow> (of_char c :: nat) < 128"
  by (simp add: is_digit_def)

lemma str_nat_digits: "str_nat n \<noteq> [] \<and> list_all is_digit (str_nat n)"
proof (induction n rule: str_nat.induct)
  case (1 n)
  show ?case
  proof (cases "n < 10")
    case True
    then show ?thesis by (subst str_nat.simps, subst (2) str_nat.simps) (simp add: digit_char_props)
  next
    case False
    with 1 show ?thesis
      by (subst str_nat.simps, subst (2) str_nat.simps) (simp add: digit_char_props)
  qed
qed

lemma digits_from_append:
  "list_all is_digit xs \<Longrightarrow>
   digits_from a (xs @ ys) = digits_from (foldl (\<lambda>b c. 10 * b + digit_val c) a xs) ys"
  by (induction xs arbitrary: a) simp_all

lemma digits_from_all:
  "list_all is_digit xs \<Longrightarrow> digits_from a xs = Some (foldl (\<lambda>b c. 10 * b + digit_val c) a xs)"
  using digits_from_append [of xs a "[]"] by simp

lemma str_nat_value: "foldl (\<lambda>b c. 10 * b + digit_val c) 0 (str_nat n) = n"
proof (induction n rule: str_nat.induct)
  case (1 n)
  show ?case
  proof (cases "n < 10")
    case True
    then show ?thesis by (subst str_nat.simps) (simp add: digit_char_props)
  next
    case False
    with 1 show ?thesis
      by (subst str_nat.simps) (simp add: digit_char_props)
  qed
qed

lemma digit_char_eval:
  "digit_char 0 = CHR ''0''" "digit_char 1 = CHR ''1''" "digit_char 2 = CHR ''2''"
  "digit_char 3 = CHR ''3''" "digit_char 4 = CHR ''4''" "digit_char 5 = CHR ''5''"
  "digit_char 6 = CHR ''6''" "digit_char 7 = CHR ''7''" "digit_char 8 = CHR ''8''"
  "digit_char 9 = CHR ''9''" "digit_char (Suc 0) = CHR ''1''"
  by (rule of_char_eqI [where ?'a = nat]; simp add: digit_char_def)+

lemma str_nat_small: "n < 10 \<Longrightarrow> str_nat n = [digit_char n]"
  by (subst str_nat.simps) simp

lemma str_nat_big: "10 \<le> n \<Longrightarrow> str_nat n = str_nat (n div 10) @ [digit_char (n mod 10)]"
  by (subst str_nat.simps) simp

lemma str_nat_hd_last: "is_digit (hd (str_nat n)) \<and> is_digit (last (str_nat n))"
  using str_nat_digits [of n] by (auto simp: list_all_iff)

lemma str_int_not_gt10: "str_int i \<noteq> ''>10''"
proof
  assume a: "str_int i = ''>10''"
  show False
  proof (cases "i < 0")
    case True
    with a show False by (simp add: str_int_def)
  next
    case False
    with a have "hd (str_nat (nat i)) = CHR ''>''" by (simp add: str_int_def)
    with str_nat_hd_last [of "nat i"] show False by (simp add: is_digit_def)
  qed
qed

lemma str_int_eq_1: "str_int i = ''1'' \<longleftrightarrow> i = 1"
proof
  assume a: "str_int i = ''1''"
  show "i = 1"
  proof (cases "i < 0")
    case True
    with a show ?thesis by (simp add: str_int_def)
  next
    case False
    with a have s: "str_nat (nat i) = ''1''" by (simp add: str_int_def)
    have "foldl (\<lambda>b c. 10 * b + digit_val c) 0 (str_nat (nat i)) = nat i"
      by (rule str_nat_value)
    then have "nat i = 1" by (simp add: s digit_val_def)
    with False show ?thesis by simp
  qed
next
  assume "i = 1"
  moreover have "str_int 1 = ''1''" by (simp add: str_int_def str_nat_small digit_char_eval)
  ultimately show "str_int i = ''1''" by simp
qed

subsection \<open>Text with no integer value\<close>

lemma dropWhile_keeps: "x \<in> set xs \<Longrightarrow> \<not> P x \<Longrightarrow> x \<in> set (dropWhile P xs)"
  by (induction xs) auto

lemma py_strip_keeps: "c \<in> set s \<Longrightarrow> \<not> is_space c \<Longrightarrow> c \<in> set (py_strip s)"
  by (simp add: py_strip_def dropWhile_keeps)

lemma digits_from_bad:
  "c \<in> set s \<Longrightarrow> \<not> is_digit c \<Longrightarrow> c \<noteq> CHR ''_'' \<Longrightarrow> digits_from a s = None"
proof (induction a s rule: digits_from.induct)
  case (1 a)
  then show ?case by simp
next
  case (2 a x xs)
  show ?case
  proof (cases "is_digit x")
    case True
    with 2 show ?thesis by auto
  next
    case False
    note nd = False
    show ?thesis
    proof (cases "x = CHR ''_''")
      case False
      with nd show ?thesis by simp
    next
      case True
      show ?thesis
      proof (cases xs)
        case Nil
        with nd True show ?thesis by simp
      next
        case (Cons d ds)
        show ?thesis
        proof (cases "is_digit d")
          case False
          with nd True Cons show ?thesis by simp
        next
          case d: True
          with 2(3,4,5) True Cons have "c \<in> set ds" by auto
          with 2(2) [OF nd True Cons d] 2(4,5) nd True Cons d show ?thesis by simp
        qed
      qed
    qed
  qed
qed

lemma parse_digits_bad:
  "c \<in> set s \<Longrightarrow> \<not> is_digit c \<Longrightarrow> c \<noteq> CHR ''_'' \<Longrightarrow> parse_digits s = None"
  by (cases s) (auto simp: parse_digits_def digits_from_bad)

lemma int_of_string_bad:
  assumes "list_all (\<lambda>c. (of_char c :: nat) < 128) s" and "c \<in> set s"
    and "c = CHR ''.'' \<or> c = CHR ''e''"
  shows "int_of_string s = None"
proof -
  from assms(3) have c: "\<not> is_space c" "\<not> is_digit c" "c \<noteq> CHR ''_''" "c \<noteq> CHR ''-''" "c \<noteq> CHR ''+''"
    by (auto simp: is_space_def is_digit_def)
  from py_strip_keeps [OF assms(2) c(1)] have m: "c \<in> set (py_strip s)" .
  then obtain x xs where p: "py_strip s = x # xs" by (cases "py_strip s") auto
  have whole: "parse_digits (x # xs) = None"
    using m p c by (intro parse_digits_bad [of c]) simp_all
  have tail: "x = CHR ''-'' \<or> x = CHR ''+'' \<Longrightarrow> parse_digits xs = None"
    using m p c by (intro parse_digits_bad [of c]) auto
  from whole tail show ?thesis
    using assms(1) by (auto simp: int_of_string_def p)
qed

lemma float_text_no_int:
  "float_text r \<Longrightarrow> int_of_string r = None \<and> r \<noteq> ''>10'' \<and> r \<noteq> ''1''"
  by (auto simp: float_text_def intro: int_of_string_bad)

subsection \<open>Reading back the text of an integer\<close>

text \<open>
  Below the digit limit \<^verbatim>\<open>int(str(i))\<close> is \<open>i\<close>: on an integer cell the integer parse of
  the quantity text is the value of the cell.
\<close>

lemma py_strip_id:
  "s \<noteq> [] \<Longrightarrow> \<not> is_space (hd s) \<Longrightarrow> \<not> is_space (last s) \<Longrightarrow> py_strip s = s"
proof -
  assume ne: "s \<noteq> []" and h: "\<not> is_space (hd s)" and l: "\<not> is_space (last s)"
  from ne h have a: "dropWhile is_space s = s"
    by (cases s) simp_all
  from ne l have b: "dropWhile is_space (rev s) = rev s"
    by (cases "rev s") (simp_all add: last_rev [symmetric] hd_rev)
  show ?thesis by (simp add: py_strip_def a b)
qed

lemma py_strip_str_int: "py_strip (str_int i) = str_int i"
proof (rule py_strip_id)
  show "str_int i \<noteq> []" using str_nat_digits by (simp add: str_int_def)
  show "\<not> is_space (hd (str_int i))"
  proof (cases "i < 0")
    case True
    then show ?thesis by (simp add: str_int_def is_space_def)
  next
    case False
    then show ?thesis
      using str_nat_hd_last [of "nat i"] by (simp add: str_int_def is_digit_not_space)
  qed
  show "\<not> is_space (last (str_int i))"
    using str_nat_hd_last str_nat_digits by (simp add: str_int_def is_digit_not_space)
qed

lemma str_nat_ascii: "list_all (\<lambda>c. (of_char c :: nat) < 128) (str_nat n)"
  using str_nat_digits [of n] by (auto simp: list_all_iff is_digit_ascii)

lemma str_int_ascii: "list_all (\<lambda>c. (of_char c :: nat) < 128) (str_int i)"
  using str_nat_ascii by (simp add: str_int_def)

lemma parse_digits_str_nat:
  "length (str_nat n) \<le> max_str_digits \<Longrightarrow> parse_digits (str_nat n) = Some n"
proof -
  assume len: "length (str_nat n) \<le> max_str_digits"
  obtain c cs where s: "str_nat n = c # cs"
    using str_nat_digits [of n] by (cases "str_nat n") auto
  with str_nat_digits [of n] have d: "is_digit c" "list_all is_digit (c # cs)" by auto
  from d(2) have "filter is_digit (c # cs) = c # cs" by (simp add: list_all_iff)
  with len s have ok: "\<not> max_str_digits < length (filter is_digit (str_nat n))" by simp
  have "parse_digits (str_nat n) = digits_from 0 (c # cs)"
    using d(1) ok by (simp add: parse_digits_def s)
  also have "\<dots> = Some (foldl (\<lambda>b c. 10 * b + digit_val c) 0 (c # cs))"
    using d(2) by (rule digits_from_all)
  finally show ?thesis using str_nat_value [of n] by (simp add: s)
qed

lemma int_of_string_str_int:
  assumes "length (str_nat (nat \<bar>i\<bar>)) \<le> max_str_digits"
  shows "int_of_string (str_int i) = Some i"
proof (cases "i < 0")
  case True
  with assms have "parse_digits (str_nat (nat (- i))) = Some (nat (- i))"
    by (intro parse_digits_str_nat) simp
  with True show ?thesis
    using py_strip_str_int [of i] str_int_ascii [of i]
    by (simp add: int_of_string_def str_int_def)
next
  case False
  obtain c cs where s: "str_nat (nat i) = c # cs"
    using str_nat_digits [of "nat i"] by (cases "str_nat (nat i)") auto
  with str_nat_hd_last [of "nat i"] have "is_digit c" by simp
  then have "c \<noteq> CHR ''-''" "c \<noteq> CHR ''+''" using is_digit_not_sign by auto
  moreover have "py_strip (c # cs) = c # cs"
    using py_strip_str_int [of i] False by (simp add: str_int_def s)
  moreover have "parse_digits (c # cs) = Some (nat i)"
    using parse_digits_str_nat [of "nat i"] assms False by (simp add: s)
  ultimately show ?thesis
    using False str_int_ascii [of i] by (simp add: int_of_string_def str_int_def s)
qed

subsection \<open>The stocks\<close>

lemma match_remnants_mset:
  "match_remnants ws ids = (Inr st, rest) \<Longrightarrow>
   mset (map s_offer_id st) + mset rest = mset ids"
proof (induction ws arbitrary: ids st)
  case Nil
  then show ?case by simp
next
  case (Cons w ws)
  show ?case
  proof (cases "py_str (Kod w) \<in> set ids")
    case False
    with Cons show ?thesis by simp
  next
    case True
    from Cons.prems True obtain n st' where
      n: "watch_stock w = Inr n" and
      r: "match_remnants ws (remove1 (py_str (Kod w)) ids) = (Inr st', rest)" and
      st: "st = \<lparr>s_offer_id = py_str (Kod w), stock = n\<rparr> # st'"
      by (auto split: sum.splits prod.splits)
    from Cons.IH [OF r] True show ?thesis
      by (simp add: st)
  qed
qed

lemma match_remnants_keeps:
  "match_remnants ws ids = (r, rest) \<Longrightarrow> i \<in> set ids \<Longrightarrow>
   i \<notin> (\<lambda>w. py_str (Kod w)) ` set ws \<Longrightarrow> i \<in> set rest"
proof (induction ws arbitrary: ids r)
  case Nil
  then show ?case by simp
next
  case (Cons w ws)
  from Cons.prems(3) have ne: "i \<noteq> py_str (Kod w)" and out: "i \<notin> (\<lambda>w. py_str (Kod w)) ` set ws"
    by auto
  show ?case
  proof (cases "py_str (Kod w) \<in> set ids")
    case False
    with Cons.prems(1) have "match_remnants ws ids = (r, rest)" by simp
    from Cons.IH [OF this Cons.prems(2) out] show ?thesis .
  next
    case True
    show ?thesis
    proof (cases "watch_stock w")
      case (Inl e)
      with Cons.prems(1) True have "rest = ids" by simp
      with Cons.prems(2) show ?thesis by simp
    next
      case (Inr n)
      with Cons.prems(1) True obtain r' where
        "match_remnants ws (remove1 (py_str (Kod w)) ids) = (r', rest)"
        by (auto split: sum.splits prod.splits)
      moreover from Cons.prems(2) ne have "i \<in> set (remove1 (py_str (Kod w)) ids)" by simp
      ultimately show ?thesis using Cons.IH out by blast
    qed
  qed
qed

lemma match_remnants_rest:
  "match_remnants ws ids = (Inr st, rest) \<Longrightarrow> distinct ids \<Longrightarrow>
   rest = filter (\<lambda>i. i \<notin> (\<lambda>w. py_str (Kod w)) ` set ws) ids"
proof (induction ws arbitrary: ids st)
  case Nil
  then show ?case by simp
next
  case (Cons w ws)
  show ?case
  proof (cases "py_str (Kod w) \<in> set ids")
    case False
    with Cons.prems(1) have "match_remnants ws ids = (Inr st, rest)" by simp
    from Cons.IH [OF this Cons.prems(2)] False show ?thesis
      by (auto intro: filter_cong)
  next
    case True
    from Cons.prems(1) True obtain st' where
      r: "match_remnants ws (remove1 (py_str (Kod w)) ids) = (Inr st', rest)"
      by (auto split: sum.splits prod.splits)
    have "remove1 (py_str (Kod w)) ids = filter (\<lambda>i. i \<noteq> py_str (Kod w)) ids"
      using Cons.prems(2) by (simp add: distinct_remove1_removeAll removeAll_filter_not_eq eq_commute)
    with Cons.IH [OF r] Cons.prems(2) show ?thesis
      by (auto intro: filter_cong)
  qed
qed

lemma match_remnants_stock:
  "match_remnants ws ids = (Inr st, rest) \<Longrightarrow> s \<in> set st \<Longrightarrow>
   \<exists>w\<in>set ws. s_offer_id s = py_str (Kod w) \<and> watch_stock w = Inr (stock s)"
proof (induction ws arbitrary: ids st)
  case Nil
  then show ?case by simp
next
  case (Cons w ws)
  show ?case
  proof (cases "py_str (Kod w) \<in> set ids")
    case False
    with Cons show ?thesis by simp
  next
    case True
    from Cons.prems(1) True obtain n st' where
      n: "watch_stock w = Inr n" and
      r: "match_remnants ws (remove1 (py_str (Kod w)) ids) = (Inr st', rest)" and
      st: "st = \<lparr>s_offer_id = py_str (Kod w), stock = n\<rparr> # st'"
      by (auto split: sum.splits prod.splits)
    from Cons.prems(2) st have "s = \<lparr>s_offer_id = py_str (Kod w), stock = n\<rparr> \<or> s \<in> set st'"
      by simp
    then show ?thesis
    proof
      assume "s = \<lparr>s_offer_id = py_str (Kod w), stock = n\<rparr>"
      with n show ?thesis by simp
    next
      assume "s \<in> set st'"
      from Cons.IH [OF r this] show ?thesis by auto
    qed
  qed
qed

lemma create_stocks_Inr:
  "fst (create_stocks ws ids) = Inr st \<Longrightarrow>
   \<exists>st' rest. match_remnants ws ids = (Inr st', rest)
     \<and> st = st' @ map (\<lambda>i. \<lparr>s_offer_id = i, stock = 0\<rparr>) rest
     \<and> snd (create_stocks ws ids) = rest"
  by (auto simp: create_stocks_def split: prod.splits sum.splits)

lemma create_stocks_snd: "snd (create_stocks ws ids) = snd (match_remnants ws ids)"
  by (auto simp: create_stocks_def split: prod.splits sum.splits)

lemma create_stocks_Cons_matched:
  "py_str (Kod w) \<in> set ids \<Longrightarrow>
   fst (create_stocks (w # ws) ids) =
     (case watch_stock w of
        Inl e \<Rightarrow> Inl e
      | Inr n \<Rightarrow>
          (case fst (create_stocks ws (remove1 (py_str (Kod w)) ids)) of
             Inl e \<Rightarrow> Inl e
           | Inr st \<Rightarrow> Inr (\<lparr>s_offer_id = py_str (Kod w), stock = n\<rparr> # st)))"
  by (auto simp: create_stocks_def split: prod.splits sum.splits)

lemma create_stocks_Nil: "create_stocks [] ids = (Inr (map (\<lambda>i. \<lparr>s_offer_id = i, stock = 0\<rparr>) ids), ids)"
  by (simp add: create_stocks_def)

lemma match_remnants_append:
  "match_remnants (xs @ ys) ids =
     (case match_remnants xs ids of
        (Inl e, rest) \<Rightarrow> (Inl e, rest)
      | (Inr st, rest) \<Rightarrow>
          (case match_remnants ys rest of
             (Inl e, rest') \<Rightarrow> (Inl e, rest')
           | (Inr st', rest') \<Rightarrow> (Inr (st @ st'), rest')))"
  by (induction xs arbitrary: ids) (auto split: prod.splits sum.splits)

lemma match_remnants_submset: "mset (snd (match_remnants ws ids)) \<subseteq># mset ids"
proof (induction ws arbitrary: ids)
  case Nil
  then show ?case by simp
next
  case (Cons w ws)
  show ?case
  proof (cases "py_str (Kod w) \<in> set ids")
    case False
    with Cons show ?thesis by simp
  next
    case True
    show ?thesis
    proof (cases "watch_stock w")
      case (Inl e)
      with True show ?thesis by simp
    next
      case (Inr n)
      have "mset (snd (match_remnants ws (remove1 (py_str (Kod w)) ids)))
            \<subseteq># mset (remove1 (py_str (Kod w)) ids)" by (rule Cons.IH)
      also have "\<dots> \<subseteq># mset ids" by simp
      finally show ?thesis using True Inr by (auto split: prod.splits sum.splits)
    qed
  qed
qed

lemma watch_stock_cases:
  "watch_stock w =
     (case Kolichestvo w of
        PyNone \<Rightarrow> Inl TypeError
      | PyBool b \<Rightarrow> Inr (if b then 1 else 0)
      | PyInt i \<Rightarrow> Inr (if i = 1 then 0 else i)
      | PyFloat r m e \<Rightarrow>
          if r = ''>10'' then Inr 100 else if r = ''1'' then Inr 0 else Inr (float_trunc m e)
      | PyInf negative \<Rightarrow> Inl OverflowError
      | PyNan \<Rightarrow> Inl ValueError
      | PyStr t \<Rightarrow> (case normalizeStock t of Some n \<Rightarrow> Inr n | None \<Rightarrow> Inl ValueError))"
  by (cases "Kolichestvo w")
    (simp_all add: watch_stock_def normalizeStock_def str_int_not_gt10 str_int_eq_1
      split: option.splits)

lemma watch_stock_float:
  "Kolichestvo w = PyFloat r m e \<Longrightarrow> float_text r \<Longrightarrow>
   watch_stock w = Inr (float_trunc m e) \<and> normalizeStock r = None"
  using float_text_no_int [of r] by (simp add: watch_stock_cases normalizeStock_def)

lemma watch_stock_examples:
  "watch_stock (w\<lparr>Kolichestvo := PyStr ''>10''\<rparr>) = Inr 100
   \<and> watch_stock (w\<lparr>Kolichestvo := PyStr ''1''\<rparr>) = Inr 0
   \<and> watch_stock (w\<lparr>Kolichestvo := PyStr ''7''\<rparr>) = Inr 7
   \<and> watch_stock (w\<lparr>Kolichestvo := PyStr ''abc''\<rparr>) = Inl ValueError"
  by (simp add: watch_stock_def int_eval)

lemma create_stocks_at_row:
  assumes "match_remnants rows_before offer_ids = (Inr stocks_before, candidates)"
  shows "fst (create_stocks (rows_before @ w # rows_after) offer_ids) =
     (if py_str (Kod w) \<in> set candidates then
        (case watch_stock w of
           Inl e \<Rightarrow> Inl e
         | Inr n \<Rightarrow>
             (case fst (create_stocks rows_after (remove1 (py_str (Kod w)) candidates)) of
                Inl e \<Rightarrow> Inl e
              | Inr st \<Rightarrow> Inr (stocks_before @ \<lparr>s_offer_id = py_str (Kod w), stock = n\<rparr> # st)))
      else (case fst (create_stocks rows_after candidates) of
              Inl e \<Rightarrow> Inl e
            | Inr st \<Rightarrow> Inr (stocks_before @ st)))"
  using assms
  by (auto simp: create_stocks_def match_remnants_append split: prod.splits sum.splits)

text \<open>
  Claim C2 says that a quantity whose text is not numeric makes the call fail. The code
  converts the cell itself, not its text: the float 2.5 (that is 5 * 2 ^ -1, with the text
  "2.5") has no integer parse as text, and its row gets the stock 2.
\<close>

theorem create_stocks_float_quantity_counterexample:
  "py_str (Kod \<lparr>Kod = PyStr ''A'', Kolichestvo = PyFloat ''2.5'' 5 (- 1), Tsena = PyStr ''10''\<rparr>)
     \<in> set [''A'']
   \<and> py_str (Kolichestvo
         \<lparr>Kod = PyStr ''A'', Kolichestvo = PyFloat ''2.5'' 5 (- 1), Tsena = PyStr ''10''\<rparr>)
       = ''2.5''
   \<and> normalizeStock ''2.5'' = None
   \<and> fst (create_stocks
          [\<lparr>Kod = PyStr ''A'', Kolichestvo = PyFloat ''2.5'' 5 (- 1), Tsena = PyStr ''10''\<rparr>]
          [''A''])
       = Inr [\<lparr>s_offer_id = ''A'', stock = 2\<rparr>]"
  by (simp add: create_stocks_def watch_stock_def normalizeStock_def float_trunc_def int_eval)

text \<open>
  Claim C2, amended. Take any row \<open>w\<close> of the inventory, the rows before it having been
  processed without error: they gave the records \<open>stocks_before\<close> and left the offer list
  \<open>candidates\<close>. If the code of \<open>w\<close>, as text, is in \<open>candidates\<close>, \<open>create_stocks\<close> computes
  the stock of \<open>w\<close> from its quantity: the text ">10" gives 100, the text "1" gives 0, and
  any other quantity is converted by \<^verbatim>\<open>int\<close> of the cell itself. A text cell gives its
  integer parse (the rule \<open>normalizeStock\<close> of the specification) and the call fails with
  \<open>ValueError\<close> when the text is not numeric; an integer cell gives its value; a boolean
  gives 1 or 0; a finite float gives its value cut towards zero, although its text has no
  integer parse; an infinity fails with \<open>OverflowError\<close>, not-a-number with \<open>ValueError\<close>,
  a missing cell with \<open>TypeError\<close>. The record of \<open>w\<close> follows the records of the rows
  before it, and the rows after it are matched against the list without its code. A row
  whose code is not in \<open>candidates\<close> gives no record.
\<close>

theorem create_stocks_row_stock:
  assumes "match_remnants rows_before offer_ids = (Inr stocks_before, candidates)"
  shows "(py_str (Kod w) \<in> set candidates \<longrightarrow>
            fst (create_stocks (rows_before @ w # rows_after) offer_ids) =
              (case watch_stock w of
                 Inl e \<Rightarrow> Inl e
               | Inr n \<Rightarrow>
                   (case fst (create_stocks rows_after (remove1 (py_str (Kod w)) candidates)) of
                      Inl e \<Rightarrow> Inl e
                    | Inr st \<Rightarrow>
                        Inr (stocks_before @ \<lparr>s_offer_id = py_str (Kod w), stock = n\<rparr> # st))))
         \<and> (py_str (Kod w) \<notin> set candidates \<longrightarrow>
              fst (create_stocks (rows_before @ w # rows_after) offer_ids) =
                (case fst (create_stocks rows_after candidates) of
                   Inl e \<Rightarrow> Inl e
                 | Inr st \<Rightarrow> Inr (stocks_before @ st)))
         \<and> watch_stock w =
              (case Kolichestvo w of
                 PyNone \<Rightarrow> Inl TypeError
               | PyBool b \<Rightarrow> Inr (if b then 1 else 0)
               | PyInt i \<Rightarrow> Inr (if i = 1 then 0 else i)
               | PyFloat r m e \<Rightarrow>
                   if r = ''>10'' then Inr 100 else if r = ''1'' then Inr 0
                   else Inr (float_trunc m e)
               | PyInf negative \<Rightarrow> Inl OverflowError
               | PyNan \<Rightarrow> Inl ValueError
               | PyStr t \<Rightarrow> (case normalizeStock t of Some n \<Rightarrow> Inr n | None \<Rightarrow> Inl ValueError))
         \<and> (\<forall>r m e. Kolichestvo w = PyFloat r m e \<and> float_text r \<longrightarrow>
               watch_stock w = Inr (float_trunc m e) \<and> normalizeStock r = None)
         \<and> watch_stock (w\<lparr>Kolichestvo := PyStr ''>10''\<rparr>) = Inr 100
         \<and> watch_stock (w\<lparr>Kolichestvo := PyStr ''1''\<rparr>) = Inr 0
         \<and> watch_stock (w\<lparr>Kolichestvo := PyStr ''7''\<rparr>) = Inr 7
         \<and> watch_stock (w\<lparr>Kolichestvo := PyStr ''abc''\<rparr>) = Inl ValueError"
proof -
  note at = create_stocks_at_row [OF assms, of w rows_after]
  have a: "py_str (Kod w) \<in> set candidates \<longrightarrow>
            fst (create_stocks (rows_before @ w # rows_after) offer_ids) =
              (case watch_stock w of
                 Inl e \<Rightarrow> Inl e
               | Inr n \<Rightarrow>
                   (case fst (create_stocks rows_after (remove1 (py_str (Kod w)) candidates)) of
                      Inl e \<Rightarrow> Inl e
                    | Inr st \<Rightarrow>
                        Inr (stocks_before @ \<lparr>s_offer_id = py_str (Kod w), stock = n\<rparr> # st)))"
    using at by simp
  have b: "py_str (Kod w) \<notin> set candidates \<longrightarrow>
              fst (create_stocks (rows_before @ w # rows_after) offer_ids) =
                (case fst (create_stocks rows_after candidates) of
                   Inl e \<Rightarrow> Inl e
                 | Inr st \<Rightarrow> Inr (stocks_before @ st))"
    using at by simp
  have c: "\<forall>r m e. Kolichestvo w = PyFloat r m e \<and> float_text r \<longrightarrow>
               watch_stock w = Inr (float_trunc m e) \<and> normalizeStock r = None"
    using watch_stock_float [of w] by blast
  from a b c watch_stock_cases [of w] watch_stock_examples [of w] show ?thesis by blast
qed

theorem create_stocks_row_stock_witness:
  "match_remnants [\<lparr>Kod = PyStr ''Z'', Kolichestvo = PyStr ''3'', Tsena = PyStr ''5''\<rparr>]
     [''A'', ''B''] = (Inr [], [''A'', ''B''])
   \<and> py_str (Kod \<lparr>Kod = PyStr ''A'', Kolichestvo = PyStr ''7'', Tsena = PyStr ''9.50''\<rparr>)
       \<in> set [''A'', ''B'']
   \<and> float_text ''2.5''
   \<and> fst (create_stocks
          [\<lparr>Kod = PyStr ''Z'', Kolichestvo = PyStr ''3'', Tsena = PyStr ''5''\<rparr>,
           \<lparr>Kod = PyStr ''A'', Kolichestvo = PyStr ''7'', Tsena = PyStr ''9.50''\<rparr>,
           \<lparr>Kod = PyStr ''B'', Kolichestvo = PyFloat ''2.5'' 5 (- 1), Tsena = PyStr ''1''\<rparr>]
          [''A'', ''B''])
       = Inr [\<lparr>s_offer_id = ''A'', stock = 7\<rparr>, \<lparr>s_offer_id = ''B'', stock = 2\<rparr>]"
proof -
  let ?z = "\<lparr>Kod = PyStr ''Z'', Kolichestvo = PyStr ''3'', Tsena = PyStr ''5''\<rparr>"
  let ?a = "\<lparr>Kod = PyStr ''A'', Kolichestvo = PyStr ''7'', Tsena = PyStr ''9.50''\<rparr>"
  let ?b = "\<lparr>Kod = PyStr ''B'', Kolichestvo = PyFloat ''2.5'' 5 (- 1), Tsena = PyStr ''1''\<rparr>"
  have before: "match_remnants [?z] [''A'', ''B''] = (Inr [], [''A'', ''B''])" by simp
  have mem: "py_str (Kod ?a) \<in> set [''A'', ''B'']" by simp
  have ft: "float_text ''2.5''" by (simp add: float_text_def)
  have seven: "watch_stock ?a = Inr 7"
    using create_stocks_row_stock [OF before, of ?a "[?b]"]
    by (simp add: normalizeStock_def int_eval)
  have two: "watch_stock ?b = Inr 2"
    using create_stocks_row_stock [OF before, of ?b "[]"] ft
    by (simp add: float_trunc_def)
  have rest: "fst (create_stocks [?b] [''B'']) = Inr [\<lparr>s_offer_id = ''B'', stock = 2\<rparr>]"
    using two by (simp add: create_stocks_def)
  from create_stocks_row_stock [OF before, of ?a "[?b]"] mem
  have "fst (create_stocks ([?z] @ ?a # [?b]) [''A'', ''B'']) =
        (case watch_stock ?a of
           Inl e \<Rightarrow> Inl e
         | Inr n \<Rightarrow>
             (case fst (create_stocks [?b] (remove1 (py_str (Kod ?a)) [''A'', ''B''])) of
                Inl e \<Rightarrow> Inl e
              | Inr st \<Rightarrow> Inr ([] @ \<lparr>s_offer_id = py_str (Kod ?a), stock = n\<rparr> # st)))"
    by blast
  then have "fst (create_stocks [?z, ?a, ?b] [''A'', ''B''])
       = Inr [\<lparr>s_offer_id = ''A'', stock = 7\<rparr>, \<lparr>s_offer_id = ''B'', stock = 2\<rparr>]"
    by (simp add: seven rest)
  with before mem ft show ?thesis by blast
qed

text \<open>
  Claim C4 says that, for every offer list, the result has at most one record for an
  identifier. An offer list that names an identifier twice gets two: \<^verbatim>\<open>list.remove\<close>
  drops one occurrence, and the other is zero-filled.
\<close>

theorem create_stocks_duplicate_offer_counterexample:
  "fst (create_stocks [\<lparr>Kod = PyStr ''A'', Kolichestvo = PyStr ''5'', Tsena = PyStr ''10''\<rparr>]
          [''A'', ''A''])
   = Inr [\<lparr>s_offer_id = ''A'', stock = 5\<rparr>, \<lparr>s_offer_id = ''A'', stock = 0\<rparr>]"
  by (simp add: create_stocks_def watch_stock_def int_eval)

text \<open>
  Claim C4, amended. When \<open>create_stocks\<close> returns, its list has as many records for an
  identifier as the offer list has occurrences of it: exactly one for each offer when the
  offer list has no duplicates. It holds a record with stock 0 for every offer that no
  inventory row has as its code, and no record for an identifier that is not an offer. With
  offers A, B, C and rows for A and B the result is A and B from their rows and C with 0.
\<close>

theorem create_stocks_one_record_per_offer:
  assumes "fst (create_stocks ws ids) = Inr st"
  shows "mset (map s_offer_id st) = mset ids
         \<and> (distinct ids \<longrightarrow> distinct (map s_offer_id st))
         \<and> (\<forall>i\<in>set ids. i \<notin> (\<lambda>w. py_str (Kod w)) ` set ws
               \<longrightarrow> \<lparr>s_offer_id = i, stock = 0\<rparr> \<in> set st)
         \<and> (\<forall>s\<in>set st. s_offer_id s \<in> set ids)"
proof -
  from create_stocks_Inr [OF assms] obtain st' rest where
    m: "match_remnants ws ids = (Inr st', rest)" and
    st: "st = st' @ map (\<lambda>i. \<lparr>s_offer_id = i, stock = 0\<rparr>) rest"
    by blast
  have ids: "map s_offer_id st = map s_offer_id st' @ rest"
    by (simp add: st comp_def)
  have perm: "mset (map s_offer_id st) = mset ids"
    using match_remnants_mset [OF m] by (simp add: ids)
  have dist: "distinct ids \<longrightarrow> distinct (map s_offer_id st)"
    using perm by (metis mset_eq_imp_distinct_iff)
  have zero: "\<forall>i\<in>set ids. i \<notin> (\<lambda>w. py_str (Kod w)) ` set ws
               \<longrightarrow> \<lparr>s_offer_id = i, stock = 0\<rparr> \<in> set st"
  proof (intro ballI impI)
    fix i assume "i \<in> set ids" "i \<notin> (\<lambda>w. py_str (Kod w)) ` set ws"
    with match_remnants_keeps [OF m] have "i \<in> set rest" by blast
    then show "\<lparr>s_offer_id = i, stock = 0\<rparr> \<in> set st" by (simp add: st)
  qed
  have sub: "\<forall>s\<in>set st. s_offer_id s \<in> set ids"
  proof
    fix s assume "s \<in> set st"
    then have "s_offer_id s \<in> set (map s_offer_id st)" by simp
    then have "s_offer_id s \<in># mset ids" by (simp only: perm [symmetric] set_mset_mset)
    then show "s_offer_id s \<in> set ids" by simp
  qed
  from perm dist zero sub show ?thesis by blast
qed

theorem create_stocks_one_record_per_offer_witness:
  "fst (create_stocks
          [\<lparr>Kod = PyStr ''A'', Kolichestvo = PyStr ''>10'', Tsena = PyStr ''10''\<rparr>,
           \<lparr>Kod = PyStr ''B'', Kolichestvo = PyStr ''7'', Tsena = PyStr ''20''\<rparr>]
          [''A'', ''B'', ''C''])
   = Inr [\<lparr>s_offer_id = ''A'', stock = 100\<rparr>, \<lparr>s_offer_id = ''B'', stock = 7\<rparr>,
          \<lparr>s_offer_id = ''C'', stock = 0\<rparr>]
   \<and> distinct [''A'', ''B'', ''C'']
   \<and> distinct (map s_offer_id
        [\<lparr>s_offer_id = ''A'', stock = 100\<rparr>, \<lparr>s_offer_id = ''B'', stock = 7\<rparr>,
         \<lparr>s_offer_id = ''C'', stock = 0\<rparr>])"
proof -
  have run: "fst (create_stocks
          [\<lparr>Kod = PyStr ''A'', Kolichestvo = PyStr ''>10'', Tsena = PyStr ''10''\<rparr>,
           \<lparr>Kod = PyStr ''B'', Kolichestvo = PyStr ''7'', Tsena = PyStr ''20''\<rparr>]
          [''A'', ''B'', ''C''])
   = Inr [\<lparr>s_offer_id = ''A'', stock = 100\<rparr>, \<lparr>s_offer_id = ''B'', stock = 7\<rparr>,
          \<lparr>s_offer_id = ''C'', stock = 0\<rparr>]"
    by (simp add: create_stocks_def watch_stock_def int_eval)
  have d: "distinct [''A'', ''B'', ''C'']" by simp
  from create_stocks_one_record_per_offer [OF run] d run show ?thesis by blast
qed

text \<open>
  Claim C8 says that every stock is at least 0. The quantity text "-5" is parsed as it
  stands.
\<close>

theorem create_stocks_negative_stock_counterexample:
  "fst (create_stocks [\<lparr>Kod = PyStr ''A'', Kolichestvo = PyStr ''-5'', Tsena = PyStr ''10''\<rparr>]
          [''A''])
   = Inr [\<lparr>s_offer_id = ''A'', stock = - 5\<rparr>]"
  by (simp add: create_stocks_def watch_stock_def int_eval)

lemma watch_stock_values:
  "watch_stock w = Inr k \<Longrightarrow> k = 100 \<or> k = 0 \<or> py_int (Kolichestvo w) = Inr k"
  by (auto simp: watch_stock_def Let_def split: if_splits)

text \<open>
  Claim C8, amended. Every record of the list \<open>create_stocks\<close> returns has a string as its
  identifier and an integer as its stock (by the types of \<open>stock_update\<close>); the stock is
  100, 0, or the integer value of the quantity of a row with that code. So it is at least 0
  whenever no row has a quantity with a negative integer value.
\<close>

theorem create_stocks_stock_values:
  assumes "fst (create_stocks ws ids) = Inr st" and "s \<in> set st"
  shows "(stock s = 100 \<or> stock s = 0
           \<or> (\<exists>w\<in>set ws. s_offer_id s = py_str (Kod w) \<and> py_int (Kolichestvo w) = Inr (stock s)))
         \<and> ((\<forall>w\<in>set ws. \<forall>k. py_int (Kolichestvo w) = Inr k \<longrightarrow> 0 \<le> k) \<longrightarrow> 0 \<le> stock s)"
proof -
  from create_stocks_Inr [OF assms(1)] obtain st' rest where
    m: "match_remnants ws ids = (Inr st', rest)" and
    st: "st = st' @ map (\<lambda>i. \<lparr>s_offer_id = i, stock = 0\<rparr>) rest"
    by blast
  from assms(2) st have "s \<in> set st' \<or> stock s = 0" by auto
  then have a: "stock s = 100 \<or> stock s = 0
      \<or> (\<exists>w\<in>set ws. s_offer_id s = py_str (Kod w) \<and> py_int (Kolichestvo w) = Inr (stock s))"
  proof
    assume "s \<in> set st'"
    from match_remnants_stock [OF m this] obtain w where
      w: "w \<in> set ws" "s_offer_id s = py_str (Kod w)" "watch_stock w = Inr (stock s)" by blast
    from watch_stock_values [OF w(3)] w(1,2) show ?thesis by blast
  next
    assume "stock s = 0"
    then show ?thesis by simp
  qed
  then have "(\<forall>w\<in>set ws. \<forall>k. py_int (Kolichestvo w) = Inr k \<longrightarrow> 0 \<le> k) \<longrightarrow> 0 \<le> stock s"
    by auto
  with a show ?thesis by blast
qed

theorem create_stocks_stock_values_witness:
  "fst (create_stocks [\<lparr>Kod = PyStr ''A'', Kolichestvo = PyStr ''12'', Tsena = PyStr ''10''\<rparr>]
          [''A'', ''B''])
     = Inr [\<lparr>s_offer_id = ''A'', stock = 12\<rparr>, \<lparr>s_offer_id = ''B'', stock = 0\<rparr>]
   \<and> \<lparr>s_offer_id = ''A'', stock = 12\<rparr>
       \<in> set [\<lparr>s_offer_id = ''A'', stock = 12\<rparr>, \<lparr>s_offer_id = ''B'', stock = 0\<rparr>]
   \<and> py_int (PyStr ''12'') = Inr 12
   \<and> 0 \<le> stock \<lparr>s_offer_id = ''A'', stock = 12\<rparr>"
proof -
  let ?w = "\<lparr>Kod = PyStr ''A'', Kolichestvo = PyStr ''12'', Tsena = PyStr ''10''\<rparr>"
  have q: "py_int (PyStr ''12'') = Inr 12"
    by (simp add: int_eval)
  have run: "fst (create_stocks [?w] [''A'', ''B''])
     = Inr [\<lparr>s_offer_id = ''A'', stock = 12\<rparr>, \<lparr>s_offer_id = ''B'', stock = 0\<rparr>]"
    using q by (simp add: create_stocks_def watch_stock_def)
  have mem: "\<lparr>s_offer_id = ''A'', stock = 12\<rparr>
       \<in> set [\<lparr>s_offer_id = ''A'', stock = 12\<rparr>, \<lparr>s_offer_id = ''B'', stock = 0\<rparr>]" by simp
  have nonneg: "\<forall>w\<in>set [?w]. \<forall>k. py_int (Kolichestvo w) = Inr k \<longrightarrow> 0 \<le> k"
    using q by simp
  from create_stocks_stock_values [OF run mem] nonneg
  have "0 \<le> stock \<lparr>s_offer_id = ''A'', stock = 12\<rparr>" by blast
  with run mem q show ?thesis by blast
qed

subsection \<open>The call on the caller's lists\<close>

lemma stocks_loop_match_remnants:
  "stocks_loop i stocks s =
     (case match_remnants (drop i (the_watch_remnants s)) (the_offer_ids s) of
        (Inl e, rest) \<Rightarrow> (Inl e, s\<lparr>the_offer_ids := rest\<rparr>)
      | (Inr st, rest) \<Rightarrow> (Inr (stocks @ st), s\<lparr>the_offer_ids := rest\<rparr>))"
proof (induction i stocks s rule: stocks_loop.induct)
  case (1 i stocks s)
  show ?case
  proof (cases "i < length (the_watch_remnants s)")
    case False
    then show ?thesis by (subst stocks_loop.simps) simp
  next
    case True
    let ?w = "the_watch_remnants s ! i"
    from True have d: "drop i (the_watch_remnants s) = ?w # drop (Suc i) (the_watch_remnants s)"
      by (simp add: Cons_nth_drop_Suc)
    show ?thesis
    proof (cases "py_str (Kod ?w) \<in> set (the_offer_ids s)")
      case False
      with 1(2) [OF True refl False] True show ?thesis
        by (subst stocks_loop.simps) (simp add: d)
    next
      case matched: True
      show ?thesis
      proof (cases "watch_stock ?w")
        case (Inl e)
        with True matched show ?thesis
          by (subst stocks_loop.simps) (simp add: d)
      next
        case (Inr n)
        with 1(1) [OF True refl matched Inr] True matched show ?thesis
          by (subst stocks_loop.simps) (simp add: d split: prod.splits sum.splits)
      qed
    qed
  qed
qed

lemma create_stocks_call_eq:
  "create_stocks_call s =
     (fst (create_stocks (the_watch_remnants s) (the_offer_ids s)),
      s\<lparr>the_offer_ids := snd (create_stocks (the_watch_remnants s) (the_offer_ids s))\<rparr>)"
  by (simp add: create_stocks_call_def create_stocks_def stocks_loop_match_remnants
      split: prod.splits sum.splits)

text \<open>
  Claim C9 says that after the call the caller's offer list holds exactly the identifiers
  that no row matched. With a duplicate in the list, a matched identifier is still there.
\<close>

theorem create_stocks_duplicate_left_counterexample:
  "create_stocks [\<lparr>Kod = PyStr ''A'', Kolichestvo = PyStr ''>10'', Tsena = PyStr ''10''\<rparr>]
     [''A'', ''A'']
   = (Inr [\<lparr>s_offer_id = ''A'', stock = 100\<rparr>, \<lparr>s_offer_id = ''A'', stock = 0\<rparr>], [''A''])"
  by (simp add: create_stocks_def watch_stock_def)

text \<open>
  Claim C9, amended. A call of \<open>create_stocks\<close> on the caller's two lists leaves
  \<open>watch_remnants\<close> as it was and changes \<open>offer_ids\<close> in place; what it returns and what it
  leaves in \<open>offer_ids\<close> are the two components of \<open>create_stocks\<close>. When the list has no
  duplicates and the call returns, the list afterwards holds exactly the identifiers that
  are the code of no row, in their order. In every case, also when the call raises, an
  identifier that is the code of no row stays in the list, and the list only loses
  elements: it is a sub-multiset of what it was.
\<close>

theorem create_stocks_call_effect:
  "the_watch_remnants (snd (create_stocks_call s)) = the_watch_remnants s
   \<and> fst (create_stocks_call s) = fst (create_stocks (the_watch_remnants s) (the_offer_ids s))
   \<and> the_offer_ids (snd (create_stocks_call s))
       = snd (create_stocks (the_watch_remnants s) (the_offer_ids s))
   \<and> (fst (create_stocks_call s) = Inr st \<and> distinct (the_offer_ids s) \<longrightarrow>
        the_offer_ids (snd (create_stocks_call s))
        = filter (\<lambda>i. i \<notin> (\<lambda>w. py_str (Kod w)) ` set (the_watch_remnants s)) (the_offer_ids s))
   \<and> (\<forall>i\<in>set (the_offer_ids s).
          i \<notin> (\<lambda>w. py_str (Kod w)) ` set (the_watch_remnants s) \<longrightarrow>
          i \<in> set (the_offer_ids (snd (create_stocks_call s))))
   \<and> mset (the_offer_ids (snd (create_stocks_call s))) \<subseteq># mset (the_offer_ids s)"
proof -
  let ?ws = "the_watch_remnants s" and ?ids = "the_offer_ids s"
  have frame: "the_watch_remnants (snd (create_stocks_call s)) = ?ws"
    by (simp add: create_stocks_call_eq)
  have res: "fst (create_stocks_call s) = fst (create_stocks ?ws ?ids)"
    by (simp add: create_stocks_call_eq)
  have left: "the_offer_ids (snd (create_stocks_call s)) = snd (create_stocks ?ws ?ids)"
    by (simp add: create_stocks_call_eq)
  have a: "fst (create_stocks_call s) = Inr st \<and> distinct ?ids \<longrightarrow>
        the_offer_ids (snd (create_stocks_call s))
        = filter (\<lambda>i. i \<notin> (\<lambda>w. py_str (Kod w)) ` set ?ws) ?ids"
  proof
    assume h: "fst (create_stocks_call s) = Inr st \<and> distinct ?ids"
    with res have f: "fst (create_stocks ?ws ?ids) = Inr st" by simp
    from create_stocks_Inr [OF f] obtain st' rest where
      m: "match_remnants ?ws ?ids = (Inr st', rest)" and r: "snd (create_stocks ?ws ?ids) = rest"
      by blast
    from match_remnants_rest [OF m] h r left
    show "the_offer_ids (snd (create_stocks_call s))
        = filter (\<lambda>i. i \<notin> (\<lambda>w. py_str (Kod w)) ` set ?ws) ?ids"
      by simp
  qed
  have b: "\<forall>i\<in>set ?ids. i \<notin> (\<lambda>w. py_str (Kod w)) ` set ?ws \<longrightarrow>
          i \<in> set (the_offer_ids (snd (create_stocks_call s)))"
  proof (intro ballI impI)
    fix i assume i: "i \<in> set ?ids" "i \<notin> (\<lambda>w. py_str (Kod w)) ` set ?ws"
    obtain r rest where m: "match_remnants ?ws ?ids = (r, rest)" by (cases "match_remnants ?ws ?ids")
    from match_remnants_keeps [OF m i] m show "i \<in> set (the_offer_ids (snd (create_stocks_call s)))"
      by (simp add: left create_stocks_snd)
  qed
  have c: "mset (the_offer_ids (snd (create_stocks_call s))) \<subseteq># mset ?ids"
    using match_remnants_submset [of ?ws ?ids] by (simp add: left create_stocks_snd)
  from frame res left a b c show ?thesis by blast
qed

theorem create_stocks_call_effect_witness:
  "fst (create_stocks_call
          \<lparr>the_watch_remnants =
             [\<lparr>Kod = PyStr ''B'', Kolichestvo = PyStr ''>10'', Tsena = PyStr ''10''\<rparr>],
           the_offer_ids = [''A'', ''B'', ''C'']\<rparr>)
     = Inr [\<lparr>s_offer_id = ''B'', stock = 100\<rparr>, \<lparr>s_offer_id = ''A'', stock = 0\<rparr>,
            \<lparr>s_offer_id = ''C'', stock = 0\<rparr>]
   \<and> distinct [''A'', ''B'', ''C'']
   \<and> snd (create_stocks_call
          \<lparr>the_watch_remnants =
             [\<lparr>Kod = PyStr ''B'', Kolichestvo = PyStr ''>10'', Tsena = PyStr ''10''\<rparr>],
           the_offer_ids = [''A'', ''B'', ''C'']\<rparr>)
     = \<lparr>the_watch_remnants =
          [\<lparr>Kod = PyStr ''B'', Kolichestvo = PyStr ''>10'', Tsena = PyStr ''10''\<rparr>],
        the_offer_ids = [''A'', ''C'']\<rparr>"
proof -
  let ?ws = "[\<lparr>Kod = PyStr ''B'', Kolichestvo = PyStr ''>10'', Tsena = PyStr ''10''\<rparr>]"
  let ?s = "\<lparr>the_watch_remnants = ?ws, the_offer_ids = [''A'', ''B'', ''C'']\<rparr>"
  let ?st = "[\<lparr>s_offer_id = ''B'', stock = 100\<rparr>, \<lparr>s_offer_id = ''A'', stock = 0\<rparr>,
            \<lparr>s_offer_id = ''C'', stock = 0\<rparr>]"
  note eff = create_stocks_call_effect [of ?s ?st]
  have run: "fst (create_stocks ?ws [''A'', ''B'', ''C'']) = Inr ?st"
    by (simp add: create_stocks_def watch_stock_def)
  from eff [THEN conjunct2, THEN conjunct1] run
  have res: "fst (create_stocks_call ?s) = Inr ?st" by simp
  have d: "distinct [''A'', ''B'', ''C'']" by simp
  from eff [THEN conjunct2, THEN conjunct2, THEN conjunct2, THEN conjunct1] res d
  have "the_offer_ids (snd (create_stocks_call ?s))
        = filter (\<lambda>i. i \<notin> (\<lambda>w. py_str (Kod w)) ` set (the_watch_remnants ?s))
            (the_offer_ids ?s)"
    by simp
  then have ids: "the_offer_ids (snd (create_stocks_call ?s)) = [''A'', ''C'']" by simp
  from eff [THEN conjunct1]
  have rows: "the_watch_remnants (snd (create_stocks_call ?s)) = ?ws" by simp
  from ids rows have "snd (create_stocks_call ?s)
      = \<lparr>the_watch_remnants = ?ws, the_offer_ids = [''A'', ''C'']\<rparr>"
    by (cases "snd (create_stocks_call ?s)") simp
  with res d show ?thesis by blast
qed

subsection \<open>Reading the offers page by page\<close>

lemma first_reached_iff:
  "first_reached acc ps \<longleftrightarrow>
     count_reached acc ps \<and> (\<forall>k. 0 < k \<and> k < length ps \<longrightarrow> \<not> count_reached acc (take k ps))"
  by (auto simp: first_reached_def list_all_iff)

lemma first_reached_single:
  "first_reached acc [p] \<longleftrightarrow> total_count p = int (length (acc @ items p))"
  by (auto simp: first_reached_iff count_reached_def)

lemma first_reached_Cons:
  "ps \<noteq> [] \<Longrightarrow>
   first_reached acc (p # ps) \<longleftrightarrow>
     total_count p \<noteq> int (length (acc @ items p)) \<and> first_reached (acc @ items p) ps"
proof
  assume ne: "ps \<noteq> []" and f: "first_reached acc (p # ps)"
  from f have c: "count_reached acc (p # ps)"
    and e: "\<And>k. 0 < k \<Longrightarrow> k < length (p # ps) \<Longrightarrow> \<not> count_reached acc (take k (p # ps))"
    by (auto simp: first_reached_iff)
  from ne e [of 1] have one: "total_count p \<noteq> int (length (acc @ items p))"
    by (cases ps) (auto simp: count_reached_def)
  from c ne have c': "count_reached (acc @ items p) ps"
    by (simp add: count_reached_def)
  have "\<not> count_reached (acc @ items p) (take k ps)" if k: "0 < k" "k < length ps" for k
  proof -
    from k ne have t: "take k ps \<noteq> []" by (cases ps) auto
    from e [of "Suc k"] k have "\<not> count_reached acc (p # take k ps)" by simp
    with t show ?thesis by (simp add: count_reached_def)
  qed
  with one c' show "total_count p \<noteq> int (length (acc @ items p)) \<and> first_reached (acc @ items p) ps"
    by (simp add: first_reached_iff)
next
  assume ne: "ps \<noteq> []"
    and h: "total_count p \<noteq> int (length (acc @ items p)) \<and> first_reached (acc @ items p) ps"
  then have one: "total_count p \<noteq> int (length (acc @ items p))"
    and c': "count_reached (acc @ items p) ps"
    and e': "\<And>k. 0 < k \<Longrightarrow> k < length ps \<Longrightarrow> \<not> count_reached (acc @ items p) (take k ps)"
    by (auto simp: first_reached_iff)
  from c' ne have c: "count_reached acc (p # ps)" by (simp add: count_reached_def)
  have "\<not> count_reached acc (take k (p # ps))" if k: "0 < k" "k < length (p # ps)" for k
  proof (cases k)
    case 0
    with k show ?thesis by simp
  next
    case (Suc j)
    show ?thesis
    proof (cases "j = 0")
      case True
      with Suc one show ?thesis by (simp add: count_reached_def)
    next
      case False
      with k Suc have j: "0 < j" "j < length ps" by auto
      with ne have t: "take j ps \<noteq> []" by (cases ps) auto
      from e' [OF j] t Suc show ?thesis by (simp add: count_reached_def)
    qed
  qed
  with c show "first_reached acc (p # ps)" by (simp add: first_reached_iff)
qed

lemma fetch_products_stops:
  "serves api cursor ps \<Longrightarrow> first_reached acc ps \<Longrightarrow>
   fetch_products api cursor acc = Some (Inr (acc @ concat (map items ps)))"
proof (induction ps arbitrary: cursor acc)
  case Nil
  then show ?case by (simp add: first_reached_iff count_reached_def)
next
  case (Cons p ps)
  from Cons.prems(1) have a: "api cursor = Inr p" and s: "serves api (last_id p) ps" by simp_all
  show ?case
  proof (cases "ps = []")
    case True
    with Cons.prems(2) have "total_count p = int (length (acc @ items p))"
      by (simp add: first_reached_single)
    with a True show ?thesis by (subst fetch_products.simps) simp
  next
    case False
    with Cons.prems(2) have ne: "total_count p \<noteq> int (length (acc @ items p))"
      and f: "first_reached (acc @ items p) ps"
      by (simp_all add: first_reached_Cons)
    from Cons.IH [OF s f] a ne show ?thesis
      by (subst fetch_products.simps) simp
  qed
qed

lemma fetch_products_stopped:
  "fetch_products api cursor acc = Some (Inr pl) \<Longrightarrow>
   \<exists>ps. serves api cursor ps \<and> first_reached acc ps \<and> pl = acc @ concat (map items ps)"
proof (induction api cursor acc "Inr pl :: error + product list" arbitrary: pl
    rule: fetch_products.raw_induct [rotated 1, consumes 1])
  case (1 fetch api cursor acc)
  from 1(2) obtain p where a: "api cursor = Inr p"
    by (cases "api cursor") auto
  show ?case
  proof (cases "total_count p = int (length (acc @ items p))")
    case True
    with 1(2) a have "pl = acc @ items p" by simp
    moreover have "serves api cursor [p]" using a by simp
    moreover have "first_reached acc [p]" using True by (simp add: first_reached_single)
    ultimately show ?thesis by (intro exI [of _ "[p]"]) simp
  next
    case False
    with 1(2) a have "fetch api (last_id p) (acc @ items p) = Some (Inr pl)" by simp
    from 1(1) [OF this] obtain ps where
      ps: "serves api (last_id p) ps" "first_reached (acc @ items p) ps"
          "pl = (acc @ items p) @ concat (map items ps)" by blast
    from ps(2) have ne: "ps \<noteq> []" by (auto simp: first_reached_iff count_reached_def)
    have "serves api cursor (p # ps)" using a ps(1) by simp
    moreover have "first_reached acc (p # ps)" using ne False ps(2) by (simp add: first_reached_Cons)
    moreover have "pl = acc @ concat (map items (p # ps))" using ps(3) by simp
    ultimately show ?thesis by blast
  qed
qed

lemma get_offer_ids_Some:
  "get_offer_ids m = Some (Inr ids) \<longleftrightarrow>
     (\<exists>pl. fetch_products (get_product_list m) '''' [] = Some (Inr pl) \<and> ids = map offer_id pl)"
  by (auto simp: get_offer_ids_def split: option.splits sum.splits)

text \<open>
  Claim C5. \<open>get_offer_ids\<close> ends exactly when the number of accumulated items equals the
  total the marketplace reports. If the marketplace serves the pages \<open>ps\<close>, of any sizes, and
  the running count first equals the reported total after the last of them, then the loop
  ends there and the result is the offer identifiers of all items of \<open>ps\<close>, in order.
  Conversely, whenever \<open>get_offer_ids\<close> returns a list, it is the identifiers of such a
  sequence of pages.
\<close>

theorem get_offer_ids_stops_at_total:
  "(serves (get_product_list m) '''' ps \<and> first_reached [] ps \<longrightarrow>
      get_offer_ids m = Some (Inr (map offer_id (concat (map items ps)))))
   \<and> (get_offer_ids m = Some (Inr ids) \<longrightarrow>
        (\<exists>qs. serves (get_product_list m) '''' qs \<and> first_reached [] qs
              \<and> ids = map offer_id (concat (map items qs))))"
proof -
  have a: "serves (get_product_list m) '''' ps \<and> first_reached [] ps \<longrightarrow>
      get_offer_ids m = Some (Inr (map offer_id (concat (map items ps))))"
  proof
    assume h: "serves (get_product_list m) '''' ps \<and> first_reached [] ps"
    then have "fetch_products (get_product_list m) '''' [] = Some (Inr ([] @ concat (map items ps)))"
      by (intro fetch_products_stops) simp_all
    then show "get_offer_ids m = Some (Inr (map offer_id (concat (map items ps))))"
      by (simp add: get_offer_ids_Some)
  qed
  have b: "get_offer_ids m = Some (Inr ids) \<longrightarrow>
        (\<exists>qs. serves (get_product_list m) '''' qs \<and> first_reached [] qs
              \<and> ids = map offer_id (concat (map items qs)))"
  proof
    assume "get_offer_ids m = Some (Inr ids)"
    then obtain pl where pl: "fetch_products (get_product_list m) '''' [] = Some (Inr pl)"
      "ids = map offer_id pl" by (auto simp: get_offer_ids_Some)
    from fetch_products_stopped [OF pl(1)] pl(2)
    show "\<exists>qs. serves (get_product_list m) '''' qs \<and> first_reached [] qs
              \<and> ids = map offer_id (concat (map items qs))" by auto
  qed
  from a b show ?thesis ..
qed

lemma scenario_serves:
  "serves (get_product_list scenario_market) '''' [scenario_page1, scenario_page2]"
  by (simp add: scenario_market_def scenario_page1_def)

lemma scenario_first_reached: "first_reached [] [scenario_page1, scenario_page2]"
  by (simp add: first_reached_def count_reached_def scenario_page1_def scenario_page2_def)

theorem get_offer_ids_stops_at_total_witness:
  "serves (get_product_list scenario_market) '''' [scenario_page1, scenario_page2]
   \<and> first_reached [] [scenario_page1, scenario_page2]
   \<and> get_offer_ids scenario_market = Some (Inr [''X1'', ''X2'', ''X3''])"
proof -
  from get_offer_ids_stops_at_total [of scenario_market "[scenario_page1, scenario_page2]"]
    scenario_serves scenario_first_reached
  have "get_offer_ids scenario_market
        = Some (Inr (map offer_id (concat (map items [scenario_page1, scenario_page2]))))"
    by blast
  then have "get_offer_ids scenario_market = Some (Inr [''X1'', ''X2'', ''X3''])"
    by (simp add: scenario_page1_def scenario_page2_def)
  with scenario_serves scenario_first_reached show ?thesis by blast
qed

subsection \<open>The uploads\<close>

lemma post_all_ok: "(\<forall>c. post c = Inr ()) \<Longrightarrow> post_all post cs = Inr ()"
  by (induction cs) simp_all

lemma divide_list_100: "\<exists>chunks. divide_list xs 100 = Inr chunks"
  by (simp add: divide_pos)

lemma upload_stocks_Inr:
  "upload_stocks m ws = Some (Inr (not_empty, stocks)) \<Longrightarrow>
   (\<exists>ids. get_offer_ids m = Some (Inr ids) \<and> fst (create_stocks ws ids) = Inr stocks)
   \<and> not_empty = filter (\<lambda>s. stock s \<noteq> 0) stocks"
  by (auto simp: upload_stocks_def split: option.splits sum.splits prod.splits)

lemma upload_stocks_returns:
  "get_offer_ids m = Some (Inr ids) \<Longrightarrow> fst (create_stocks ws ids) = Inr stocks \<Longrightarrow>
   \<forall>c. update_stocks m c = Inr () \<Longrightarrow>
   upload_stocks m ws = Some (Inr (filter (\<lambda>s. stock s \<noteq> 0) stocks, stocks))"
  using divide_list_100 [of stocks]
  by (auto simp: upload_stocks_def post_all_ok split: option.splits sum.splits prod.splits)

text \<open>
  Claim C10. When \<open>upload_stocks\<close> returns the pair \<open>(not_empty, stocks)\<close>, then \<open>stocks\<close> is
  the list \<open>create_stocks\<close> builds from the offer identifiers that this call has fetched
  with \<open>get_offer_ids\<close>, and \<open>not_empty\<close> is the records of \<open>stocks\<close> whose stock is not
  zero, in the same order. It does return that pair whenever the offers are fetched, the
  stocks are built and the marketplace accepts every chunk.
\<close>

theorem upload_stocks_not_empty:
  "(upload_stocks m ws = Some (Inr (not_empty, stocks)) \<longrightarrow>
      (\<exists>ids. get_offer_ids m = Some (Inr ids) \<and> fst (create_stocks ws ids) = Inr stocks)
      \<and> not_empty = filter (\<lambda>s. stock s \<noteq> 0) stocks
      \<and> subseq not_empty stocks
      \<and> (\<forall>s\<in>set stocks. s \<in> set not_empty \<longleftrightarrow> stock s \<noteq> 0))
   \<and> (get_offer_ids m = Some (Inr ids) \<and> fst (create_stocks ws ids) = Inr stocks
        \<and> (\<forall>c. update_stocks m c = Inr ()) \<longrightarrow>
      upload_stocks m ws = Some (Inr (filter (\<lambda>s. stock s \<noteq> 0) stocks, stocks)))"
proof -
  have a: "upload_stocks m ws = Some (Inr (not_empty, stocks)) \<longrightarrow>
      (\<exists>ids. get_offer_ids m = Some (Inr ids) \<and> fst (create_stocks ws ids) = Inr stocks)
      \<and> not_empty = filter (\<lambda>s. stock s \<noteq> 0) stocks
      \<and> subseq not_empty stocks
      \<and> (\<forall>s\<in>set stocks. s \<in> set not_empty \<longleftrightarrow> stock s \<noteq> 0)"
  proof
    assume "upload_stocks m ws = Some (Inr (not_empty, stocks))"
    from upload_stocks_Inr [OF this]
    have ids: "\<exists>ids. get_offer_ids m = Some (Inr ids) \<and> fst (create_stocks ws ids) = Inr stocks"
      and ne: "not_empty = filter (\<lambda>s. stock s \<noteq> 0) stocks" by blast+
    from ne have "subseq not_empty stocks" by simp
    moreover from ne have "\<forall>s\<in>set stocks. s \<in> set not_empty \<longleftrightarrow> stock s \<noteq> 0" by simp
    ultimately show "(\<exists>ids. get_offer_ids m = Some (Inr ids) \<and> fst (create_stocks ws ids) = Inr stocks)
      \<and> not_empty = filter (\<lambda>s. stock s \<noteq> 0) stocks
      \<and> subseq not_empty stocks
      \<and> (\<forall>s\<in>set stocks. s \<in> set not_empty \<longleftrightarrow> stock s \<noteq> 0)"
      using ids ne by blast
  qed
  have b: "get_offer_ids m = Some (Inr ids) \<and> fst (create_stocks ws ids) = Inr stocks
        \<and> (\<forall>c. update_stocks m c = Inr ()) \<longrightarrow>
      upload_stocks m ws = Some (Inr (filter (\<lambda>s. stock s \<noteq> 0) stocks, stocks))"
    using upload_stocks_returns [of m ids ws stocks] by blast
  from a b show ?thesis ..
qed

lemma scenario_fields:
  "download_stock scenario_market = Inr scenario_remnants"
  "update_stocks scenario_market = (\<lambda>stocks. Inr ())"
  "update_price scenario_market = (\<lambda>prices. Inr ())"
  by (simp_all add: scenario_market_def)

lemma scenario_offer_ids: "get_offer_ids scenario_market = Some (Inr [''X1'', ''X2'', ''X3''])"
proof -
  have "fetch_products (get_product_list scenario_market) '''' []
        = Some (Inr ([] @ concat (map items [scenario_page1, scenario_page2])))"
    using scenario_serves scenario_first_reached by (rule fetch_products_stops)
  then show ?thesis
    by (simp add: get_offer_ids_def scenario_page1_def scenario_page2_def)
qed

lemma scenario_stocks:
  "create_stocks scenario_remnants [''X1'', ''X2'', ''X3'']
   = (Inr [\<lparr>s_offer_id = ''X1'', stock = 100\<rparr>, \<lparr>s_offer_id = ''X2'', stock = 0\<rparr>,
           \<lparr>s_offer_id = ''X3'', stock = 0\<rparr>], [''X3''])"
  by (simp add: create_stocks_def scenario_remnants_def watch_stock_def)

theorem upload_stocks_not_empty_witness:
  "get_offer_ids scenario_market = Some (Inr [''X1'', ''X2'', ''X3''])
   \<and> fst (create_stocks scenario_remnants [''X1'', ''X2'', ''X3''])
       = Inr [\<lparr>s_offer_id = ''X1'', stock = 100\<rparr>, \<lparr>s_offer_id = ''X2'', stock = 0\<rparr>,
              \<lparr>s_offer_id = ''X3'', stock = 0\<rparr>]
   \<and> (\<forall>c. update_stocks scenario_market c = Inr ())
   \<and> upload_stocks scenario_market scenario_remnants
       = Some (Inr ([\<lparr>s_offer_id = ''X1'', stock = 100\<rparr>],
                    [\<lparr>s_offer_id = ''X1'', stock = 100\<rparr>, \<lparr>s_offer_id = ''X2'', stock = 0\<rparr>,
                     \<lparr>s_offer_id = ''X3'', stock = 0\<rparr>]))"
proof -
  let ?st = "[\<lparr>s_offer_id = ''X1'', stock = 100\<rparr>, \<lparr>s_offer_id = ''X2'', stock = 0\<rparr>,
              \<lparr>s_offer_id = ''X3'', stock = 0\<rparr>]"
  have st: "fst (create_stocks scenario_remnants [''X1'', ''X2'', ''X3'']) = Inr ?st"
    by (simp add: scenario_stocks)
  have ok: "\<forall>c. update_stocks scenario_market c = Inr ()"
    by (simp add: scenario_market_def)
  from upload_stocks_not_empty [of scenario_market scenario_remnants _ ?st "[''X1'', ''X2'', ''X3'']"]
    scenario_offer_ids st ok
  have "upload_stocks scenario_market scenario_remnants
        = Some (Inr (filter (\<lambda>s. stock s \<noteq> 0) ?st, ?st))" by blast
  then have "upload_stocks scenario_market scenario_remnants
        = Some (Inr ([\<lparr>s_offer_id = ''X1'', stock = 100\<rparr>], ?st))" by simp
  with scenario_offer_ids st ok show ?thesis by blast
qed

lemma create_prices_unmatched:
  "\<forall>w\<in>set ws. py_str (Kod w) \<notin> set ids \<Longrightarrow> create_prices ws ids = Inr []"
  by (induction ws) simp_all

lemma create_prices_after_stocks:
  assumes "create_stocks ws ids = (Inr st, rest)" and "distinct ids"
  shows "create_prices ws rest = Inr []"
proof -
  from assms(1) have f: "fst (create_stocks ws ids) = Inr st" and s: "snd (create_stocks ws ids) = rest"
    by simp_all
  from create_stocks_Inr [OF f] s obtain st' where m: "match_remnants ws ids = (Inr st', rest)"
    by auto
  from match_remnants_rest [OF m assms(2)]
  have "\<forall>w\<in>set ws. py_str (Kod w) \<notin> set rest" by auto
  then show ?thesis by (rule create_prices_unmatched)
qed

text \<open>
  Claim C1 says that \<open>main\<close> builds the prices against the offers as they were fetched, so
  that in the scenario of the specification the price list is X1 with "100" and X2 with
  "200". The code passes the list that \<open>create_stocks\<close> has emptied of every matched
  identifier: in the scenario \<open>main\<close> builds the three stocks and no price at all, while
  \<open>create_prices\<close> on the offers as fetched gives the two prices of the claim.
\<close>

theorem main_scenario_prices:
  "main scenario_market
   = Some (Inr ([\<lparr>s_offer_id = ''X1'', stock = 100\<rparr>, \<lparr>s_offer_id = ''X2'', stock = 0\<rparr>,
                 \<lparr>s_offer_id = ''X3'', stock = 0\<rparr>], []))
   \<and> create_prices scenario_remnants [''X1'', ''X2'', ''X3'']
       = Inr [\<lparr>auto_action_enabled = ''UNKNOWN'', currency_code = ''RUB'', p_offer_id = ''X1'',
               old_price = ''0'', price = ''100''\<rparr>,
              \<lparr>auto_action_enabled = ''UNKNOWN'', currency_code = ''RUB'', p_offer_id = ''X2'',
               old_price = ''0'', price = ''200''\<rparr>]"
proof -
  have chunks: "divide_list [\<lparr>s_offer_id = ''X1'', stock = 100\<rparr>, \<lparr>s_offer_id = ''X2'', stock = 0\<rparr>,
                 \<lparr>s_offer_id = ''X3'', stock = 0\<rparr>] 100
      = Inr [[\<lparr>s_offer_id = ''X1'', stock = 100\<rparr>, \<lparr>s_offer_id = ''X2'', stock = 0\<rparr>,
                 \<lparr>s_offer_id = ''X3'', stock = 0\<rparr>]]"
    by (simp add: divide_pos range_up_step range_up_done py_slice_def slice_index_def)
  have none: "create_prices scenario_remnants [''X3''] = Inr []"
    by (simp add: scenario_remnants_def)
  have nochunks: "divide_list ([] :: price_update list) 900 = Inr []"
    by (simp add: divide_pos range_up_done)
  have run: "main scenario_market
   = Some (Inr ([\<lparr>s_offer_id = ''X1'', stock = 100\<rparr>, \<lparr>s_offer_id = ''X2'', stock = 0\<rparr>,
                 \<lparr>s_offer_id = ''X3'', stock = 0\<rparr>], []))"
    by (simp add: main_def scenario_offer_ids scenario_fields scenario_stocks chunks none
        nochunks)
  have fresh: "create_prices scenario_remnants [''X1'', ''X2'', ''X3'']
       = Inr [\<lparr>auto_action_enabled = ''UNKNOWN'', currency_code = ''RUB'', p_offer_id = ''X1'',
               old_price = ''0'', price = ''100''\<rparr>,
              \<lparr>auto_action_enabled = ''UNKNOWN'', currency_code = ''RUB'', p_offer_id = ''X2'',
               old_price = ''0'', price = ''200''\<rparr>]"
    by (simp add: scenario_remnants_def watch_price_def price_conversion_eq is_digit_def rub_def)
  from run fresh show ?thesis ..
qed

lemma main_prices_empty:
  assumes "get_offer_ids m = Some (Inr ids)" and "distinct ids"
    and "main m = Some (Inr (stocks, prices))"
  shows "prices = []"
proof -
  from assms(3,1) obtain ws rest where
    "create_stocks ws ids = (Inr stocks, rest)" "create_prices ws rest = Inr prices"
    by (auto simp: main_def split: sum.splits prod.splits)
  with create_prices_after_stocks [OF _ assms(2)] show ?thesis by fastforce
qed

text \<open>
  In the same scenario \<open>upload_prices\<close>, which fetches the identifiers afresh, builds the
  two prices.
\<close>

lemma upload_prices_scenario:
  "upload_prices scenario_market scenario_remnants
   = Some (Inr [\<lparr>auto_action_enabled = ''UNKNOWN'', currency_code = ''RUB'', p_offer_id = ''X1'',
                 old_price = ''0'', price = ''100''\<rparr>,
                \<lparr>auto_action_enabled = ''UNKNOWN'', currency_code = ''RUB'', p_offer_id = ''X2'',
                 old_price = ''0'', price = ''200''\<rparr>])"
proof -
  have fresh: "create_prices scenario_remnants [''X1'', ''X2'', ''X3'']
       = Inr [\<lparr>auto_action_enabled = ''UNKNOWN'', currency_code = ''RUB'', p_offer_id = ''X1'',
               old_price = ''0'', price = ''100''\<rparr>,
              \<lparr>auto_action_enabled = ''UNKNOWN'', currency_code = ''RUB'', p_offer_id = ''X2'',
               old_price = ''0'', price = ''200''\<rparr>]"
    by (simp add: scenario_remnants_def watch_price_def price_conversion_eq is_digit_def rub_def)
  show ?thesis
    by (simp add: upload_prices_def scenario_offer_ids fresh scenario_fields divide_pos
        post_all_ok split: sum.splits)
qed

end
